theory Spec2Isabelle
  imports Main
begin

section \<open>Strings\<close>

text \<open>
  A JavaScript string is modelled as a \<open>string\<close> (a list of 8-bit characters): the model
  covers the strings whose code units are below 256. Lines, documents, dates, paths and
  ids are all strings. The patterns of the source that name characters outside ASCII (the
  legacy date and link syntax, the icons of \<open>cleanTaskText\<close>) are transcribed code unit
  by code unit from the source file as it is: a code unit below 256 is the character of the
  model, and a code unit above 255 is \<open>Wide\<close>, which matches no character of a modelled
  string.
\<close>

abbreviation NL :: char where "NL \<equiv> CHR 0x0A"
abbreviation TAB :: char where "TAB \<equiv> CHR 0x09"

text \<open>The white space of \<open>\s\<close>, \<open>trim\<close> and \<open>trimEnd\<close>, below code unit 256.\<close>

definition is_space :: "char \<Rightarrow> bool" where
  "is_space c \<longleftrightarrow> c \<in> set [CHR 0x09, CHR 0x0A, CHR 0x0B, CHR 0x0C, CHR 0x0D, CHR 0x20, CHR 0xA0]"

definition is_digit :: "char \<Rightarrow> bool" where
  "is_digit c \<longleftrightarrow> c \<in> set ''0123456789''"

definition is_word :: "char \<Rightarrow> bool" where
  "is_word c \<longleftrightarrow>
     c \<in> set ''abcdefghijklmnopqrstuvwxyzABCDEFGHIJKLMNOPQRSTUVWXYZ0123456789_''"

text \<open>The line terminators that \<open>.\<close> does not match.\<close>

definition is_line_end :: "char \<Rightarrow> bool" where
  "is_line_end c \<longleftrightarrow> c = CHR 0x0A \<or> c = CHR 0x0D"

definition trimStart :: "string \<Rightarrow> string" where
  "trimStart s = dropWhile is_space s"

definition trimEnd :: "string \<Rightarrow> string" where
  "trimEnd s = rev (dropWhile is_space (rev s))"

definition trim :: "string \<Rightarrow> string" where
  "trim s = trimEnd (trimStart s)"

text \<open>\<open>content.split('\n')\<close> and \<open>lines.join('\n')\<close>.\<close>

fun split_nl :: "string \<Rightarrow> string list" where
  "split_nl [] = [[]]"
| "split_nl (c # cs) =
     (if c = NL then [] # split_nl cs
      else (case split_nl cs of
              [] \<Rightarrow> [[c]]
            | l # ls \<Rightarrow> (c # l) # ls))"

fun join_nl :: "string list \<Rightarrow> string" where
  "join_nl [] = []"
| "join_nl [l] = l"
| "join_nl (l # m # ls) = l @ NL # join_nl (m # ls)"


text \<open>\<open>s.includes(t)\<close>.\<close>

fun includes_str :: "string \<Rightarrow> string \<Rightarrow> bool" where
  "includes_str [] t = (t = [])"
| "includes_str (c # cs) t = (take (length t) (c # cs) = t \<or> includes_str cs t)"

text \<open>
  A value that is a string or \<open>null\<close> is a \<open>string option\<close>; the empty string and
  \<open>null\<close> are the two that a condition takes for false.
\<close>

fun truthy :: "string option \<Rightarrow> bool" where
  "truthy None = False"
| "truthy (Some s) = (s \<noteq> [])"

section \<open>Regular expressions\<close>

text \<open>
  The source's patterns are transcribed into a small syntax and run by a backtracking
  matcher that lists, in the order a JavaScript engine tries them, the ways a pattern
  matches a prefix of the input: each is the list of the captured groups (in the order
  of their opening parentheses) and the rest of the input. The first element is the
  match that JavaScript reports. Quantifiers are greedy, and an iteration of \<open>*\<close> that
  consumes nothing is discarded, as in JavaScript. No pattern of the program has a group
  under a quantifier. \<open>Eol\<close> is \<open>$\<close>, and \<open>EolM\<close> is \<open>$\<close> under the flag \<open>m\<close>.
\<close>

datatype cls = Any | Digit | Space | Word | Chr char | OneOf string | NoneOf string | NotSpace

fun cls_ok :: "cls \<Rightarrow> char \<Rightarrow> bool" where
  "cls_ok Any c = (\<not> is_line_end c)"
| "cls_ok Digit c = is_digit c"
| "cls_ok Space c = is_space c"
| "cls_ok Word c = is_word c"
| "cls_ok (Chr d) c = (c = d)"
| "cls_ok (OneOf ds) c = (c \<in> set ds)"
| "cls_ok (NoneOf ds) c = (c \<notin> set ds)"
| "cls_ok NotSpace c = (\<not> is_space c)"

datatype rx =
    Atom cls
  | Lit string
  | Eps
  | Eol
  | EolM
  | Seq rx rx
  | Alt rx rx
  | Opt rx
  | Star rx
  | Grp rx

type_synonym rmatch = "string list \<times> string"

fun rxm :: "rx \<Rightarrow> string \<Rightarrow> rmatch list" where
  "rxm (Atom c) s =
     (case s of [] \<Rightarrow> [] | x # xs \<Rightarrow> if cls_ok c x then [([], xs)] else [])"
| "rxm (Lit l) s = (if take (length l) s = l then [([], drop (length l) s)] else [])"
| "rxm Eps s = [([], s)]"
| "rxm Eol s = (if s = [] then [([], s)] else [])"
| "rxm EolM s =
     (case s of [] \<Rightarrow> [([], s)] | x # xs \<Rightarrow> if is_line_end x then [([], s)] else [])"
| "rxm (Seq a b) s =
     concat (map (\<lambda>m1. map (\<lambda>m2. (fst m1 @ fst m2, snd m2)) (rxm b (snd m1))) (rxm a s))"
| "rxm (Alt a b) s = rxm a s @ rxm b s"
| "rxm (Opt a) s = rxm a s @ [([], s)]"
| "rxm (Star a) s =
     concat (map (\<lambda>m1. if length (snd m1) < length s then rxm (Star a) (snd m1) else [])
                 (rxm a s))
     @ [([], s)]"
| "rxm (Grp a) s =
     map (\<lambda>m1. (take (length s - length (snd m1)) s # fst m1, snd m1)) (rxm a s)"

text \<open>\<open>a+\<close>, \<open>a{n}\<close>, \<open>a{n,m}\<close> and a sequence of patterns.\<close>

definition Plus :: "rx \<Rightarrow> rx" where
  "Plus a = Seq a (Star a)"

fun Times :: "nat \<Rightarrow> rx \<Rightarrow> rx" where
  "Times 0 a = Eps"
| "Times (Suc n) a = Seq a (Times n a)"

fun UpTo :: "nat \<Rightarrow> rx \<Rightarrow> rx" where
  "UpTo 0 a = Eps"
| "UpTo (Suc n) a = Opt (Seq a (UpTo n a))"

definition Rep :: "nat \<Rightarrow> nat \<Rightarrow> rx \<Rightarrow> rx" where
  "Rep n m a = Seq (Times n a) (UpTo (m - n) a)"

fun Seqs :: "rx list \<Rightarrow> rx" where
  "Seqs [] = Eps"
| "Seqs [a] = a"
| "Seqs (a # b # bs) = Seq a (Seqs (b # bs))"

text \<open>
  A code unit above 255 in a pattern, and the sequences of the source that hold one: each
  is the code unit \<open>U+00F0\<close> followed by code units above 255. \<open>ICON_UNITS\<close> holds the
  code units below 256 of the character class of \<open>cleanTaskText\<close>; the class has code units
  above 255 as well, which no character of a modelled string is.
\<close>

definition Wide :: rx where
  "Wide = Atom (OneOf [])"

definition LEGACY_DATE_ICON :: rx where
  "LEGACY_DATE_ICON = Seqs [Lit [CHR 0xF0], Wide, Wide, Wide]"

definition LEGACY_LINK_ICON :: rx where
  "LEGACY_LINK_ICON = Seqs [Lit [CHR 0xF0], Wide, Wide, Wide]"

definition BUTTON_ICON :: rx where
  "BUTTON_ICON = Seqs [Lit [CHR 0xF0], Wide, Wide]"

definition ICON_UNITS :: string where
  "ICON_UNITS = [CHR 0xF0, CHR 0xEF, CHR 0xB8, CHR 0xE2, CHR 0xB3, CHR 0xAB, CHR 0xBA,
                 CHR 0xBC, CHR 0xBD, CHR 0xAC]"

text \<open>A pattern that starts with \<open>^\<close> is matched at the start of the string only.\<close>

definition exec_start :: "rx \<Rightarrow> string \<Rightarrow> rmatch option" where
  "exec_start r s = (case rxm r s of [] \<Rightarrow> None | m # _ \<Rightarrow> Some m)"

definition test_start :: "rx \<Rightarrow> string \<Rightarrow> bool" where
  "test_start r s \<longleftrightarrow> rxm r s \<noteq> []"

text \<open>
  A pattern without \<open>^\<close> is tried at every position from the left: the result is the
  text before the match, the groups, and the text after the match.
\<close>

fun search :: "rx \<Rightarrow> string \<Rightarrow> (string \<times> string list \<times> string) option" where
  "search r [] = (case rxm r [] of [] \<Rightarrow> None | m # _ \<Rightarrow> Some ([], fst m, snd m))"
| "search r (x # xs) =
     (case rxm r (x # xs) of
        m # _ \<Rightarrow> Some ([], fst m, snd m)
      | [] \<Rightarrow> (case search r xs of
                 None \<Rightarrow> None
               | Some (pre, caps, rest) \<Rightarrow> Some (x # pre, caps, rest)))"

definition test :: "rx \<Rightarrow> string \<Rightarrow> bool" where
  "test r s \<longleftrightarrow> search r s \<noteq> None"

text \<open>
  \<open>s.replace(/r/g, f)\<close> scans from the left: where the pattern matches, the match is
  replaced and the scan goes on after it; after a match that consumed nothing the next
  character is copied and the scan goes on behind it. \<open>f\<close> builds the replacement from
  the groups. \<open>s.replace(/^r/, f)\<close> replaces a match at the start, and \<open>s.replace(/r/, f)\<close>
  the first match from the left.
\<close>

function replace_all :: "rx \<Rightarrow> (string list \<Rightarrow> string) \<Rightarrow> string \<Rightarrow> string" where
  "replace_all r f s =
     (case s of
        [] \<Rightarrow> (case rxm r [] of [] \<Rightarrow> [] | m # _ \<Rightarrow> f (fst m))
      | c # cs \<Rightarrow>
          (case rxm r s of
             [] \<Rightarrow> c # replace_all r f cs
           | m # _ \<Rightarrow>
               if length (snd m) < length s then f (fst m) @ replace_all r f (snd m)
               else f (fst m) @ c # replace_all r f cs))"
  by pat_completeness auto
termination
  by (relation "measure (\<lambda>(r, f, s). length s)") auto

definition replace_start :: "rx \<Rightarrow> (string list \<Rightarrow> string) \<Rightarrow> string \<Rightarrow> string" where
  "replace_start r f s =
     (case rxm r s of [] \<Rightarrow> s | m # _ \<Rightarrow> f (fst m) @ snd m)"

definition replace_first :: "rx \<Rightarrow> (string list \<Rightarrow> string) \<Rightarrow> string \<Rightarrow> string" where
  "replace_first r f s =
     (case search r s of None \<Rightarrow> s | Some (pre, caps, rest) \<Rightarrow> pre @ f caps @ rest)"

text \<open>
  A pattern \<open>/^r/m\<close> is tried at the start of every line: at the start of the string and
  behind every line terminator. \<open>b\<close> tells whether the current position is one.
\<close>

fun search_m :: "rx \<Rightarrow> bool \<Rightarrow> string \<Rightarrow> (string \<times> string list \<times> string) option" where
  "search_m r b [] =
     (if b then (case rxm r [] of [] \<Rightarrow> None | m # _ \<Rightarrow> Some ([], fst m, snd m))
      else None)"
| "search_m r b (x # xs) =
     (case (if b then rxm r (x # xs) else []) of
        m # _ \<Rightarrow> Some ([], fst m, snd m)
      | [] \<Rightarrow> (case search_m r (is_line_end x) xs of
                 None \<Rightarrow> None
               | Some (pre, caps, rest) \<Rightarrow> Some (x # pre, caps, rest)))"

text \<open>
  A replacement string is a template: \<open>$$\<close>, \<open>$&\<close>, \<open>$`\<close>, \<open>$'\<close>, \<open>$n\<close> and \<open>$nn\<close>
  stand for a dollar sign, the match, the text before it, the text after it and a group;
  a group number above the number of groups is left as it is written.
\<close>

fun expand :: "string \<Rightarrow> string \<Rightarrow> string \<Rightarrow> string list \<Rightarrow> string \<Rightarrow> string" where
  "expand [] pre mt caps post = []"
| "expand [c] pre mt caps post = [c]"
| "expand (c # d # t) pre mt caps post =
     (if c \<noteq> CHR ''$'' then c # expand (d # t) pre mt caps post
      else if d = CHR ''$'' then CHR ''$'' # expand t pre mt caps post
      else if d = CHR ''&'' then mt @ expand t pre mt caps post
      else if d = CHR 0x60 then pre @ expand t pre mt caps post
      else if d = CHR 0x27 then post @ expand t pre mt caps post
      else if is_digit d then
        (let n = nat (of_char d) - 48;
             one = (if 1 \<le> n \<and> n \<le> length caps
                    then caps ! (n - 1) @ expand t pre mt caps post
                    else c # d # expand t pre mt caps post)
         in case t of
              [] \<Rightarrow> one
            | e # t' \<Rightarrow>
                if is_digit e \<and> 1 \<le> 10 * n + (nat (of_char e) - 48)
                   \<and> 10 * n + (nat (of_char e) - 48) \<le> length caps
                then caps ! (10 * n + (nat (of_char e) - 48) - 1) @ expand t' pre mt caps post
                else one)
      else c # expand (d # t) pre mt caps post)"

text \<open>\<open>s.replace(/^r/m, template)\<close> and \<open>/^r/m.test(s)\<close>.\<close>

definition replace_m :: "rx \<Rightarrow> string \<Rightarrow> string \<Rightarrow> string" where
  "replace_m r tmpl s =
     (case search_m r True s of
        None \<Rightarrow> s
      | Some (pre, caps, rest) \<Rightarrow>
          pre @ expand tmpl pre (take (length s - length pre - length rest) (drop (length pre) s))
                  caps rest
          @ rest)"

definition test_m :: "rx \<Rightarrow> string \<Rightarrow> bool" where
  "test_m r s \<longleftrightarrow> search_m r True s \<noteq> None"

text \<open>The replacement \<open>''\<close>, and the \<open>n\<close>-th group of a match (\<open>$1\<close> is \<open>grp 0\<close>).\<close>

definition remove :: "string list \<Rightarrow> string" where
  "remove caps = []"

definition grp :: "nat \<Rightarrow> string list \<Rightarrow> string" where
  "grp n caps = (if n < length caps then caps ! n else [])"

section \<open>Settings\<close>

text \<open>The fields of the plugin settings that the modelled functions read.\<close>

record settings =
  targetFolders :: "string list"
  idPrefix :: string
  idLength :: nat
  taskNotesFolder :: string

definition DEFAULT_SETTINGS :: settings where
  "DEFAULT_SETTINGS =
     \<lparr>targetFolders = [''00 - Daily/''], idPrefix = ''t-'', idLength = 8,
      taskNotesFolder = ''Task Notes''\<rparr>"

section \<open>TaskUtils\<close>

definition TASK_PATTERN :: rx where
  "TASK_PATTERN = Seqs [Star (Atom (Chr TAB)), Lit ''- ['', Atom Any, Lit '']'']"

definition PARENT_TASK_PATTERN :: rx where
  "PARENT_TASK_PATTERN = Seqs [Lit ''- ['', Atom Any, Lit '']'']"

definition SUBTASK_PATTERN :: rx where
  "SUBTASK_PATTERN = Seqs [Plus (Atom (Chr TAB)), Lit ''- ['', Atom Any, Lit '']'']"

definition ID_PATTERN :: rx where
  "ID_PATTERN = Seqs [Lit ''[id::'', Grp (Plus (Atom (NoneOf '']''))), Lit '']'']"

definition PARENT_ID_PATTERN :: rx where
  "PARENT_ID_PATTERN = Seqs [Lit ''[parent::'', Grp (Plus (Atom (NoneOf '']''))), Lit '']'']"

definition COMPLETED_PATTERN :: rx where
  "COMPLETED_PATTERN =
     Seqs [Star (Atom (Chr TAB)), Lit ''- ['', Atom (OneOf ''xX->''), Lit '']'']"

definition TIMEBLOCK_PATTERN :: rx where
  "TIMEBLOCK_PATTERN =
     Seqs [Lit ''- ['', Atom Any, Lit '']'', Star (Atom Space),
           Grp (Times 2 (Atom Digit)), Lit '':'', Grp (Times 2 (Atom Digit)), Lit '' - '',
           Grp (Times 2 (Atom Digit)), Lit '':'', Grp (Times 2 (Atom Digit))]"

definition CALENDAR_EVENT_PATTERN :: rx where
  "CALENDAR_EVENT_PATTERN = Seqs [Star (Atom (Chr TAB)), Lit ''- [c]'']"

definition extractId :: "string \<Rightarrow> string option" where
  "extractId line =
     (case search ID_PATTERN line of
        None \<Rightarrow> None
      | Some (pre, caps, rest) \<Rightarrow> Some (trim (grp 0 caps)))"

definition extractParentId :: "string \<Rightarrow> string option" where
  "extractParentId line =
     (case search PARENT_ID_PATTERN line of
        None \<Rightarrow> None
      | Some (pre, caps, rest) \<Rightarrow> Some (trim (grp 0 caps)))"

text \<open>
  \<open>generateId\<close> draws \<open>idLength\<close> characters of \<open>chars\<close> at random. The random source is
  a parameter: \<open>rnd k\<close> stands for the \<open>k\<close>-th value of
  \<open>Math.floor(Math.random() * chars.length)\<close>, which lies below \<open>chars.length\<close>; the model
  reduces it modulo that length. \<open>k\<close> counts the draws made so far.
\<close>

definition chars :: string where
  "chars = ''abcdefghijklmnopqrstuvwxyz0123456789''"

fun draw :: "(nat \<Rightarrow> nat) \<Rightarrow> nat \<Rightarrow> nat \<Rightarrow> string" where
  "draw rnd k 0 = []"
| "draw rnd k (Suc n) = chars ! (rnd k mod length chars) # draw rnd (Suc k) n"

definition generateId :: "settings \<Rightarrow> (nat \<Rightarrow> nat) \<Rightarrow> nat \<Rightarrow> string" where
  "generateId st rnd k = idPrefix st @ draw rnd k (idLength st)"

definition addId :: "string \<Rightarrow> string \<Rightarrow> string" where
  "addId line ident =
     (if truthy (extractId line) then line
      else trimEnd line @ '' [id::'' @ ident @ '']'')"

definition isTask :: "string \<Rightarrow> bool" where
  "isTask line = test_start TASK_PATTERN line"

definition isCalendarEvent :: "string \<Rightarrow> bool" where
  "isCalendarEvent line = test_start CALENDAR_EVENT_PATTERN line"

definition isParentTask :: "string \<Rightarrow> bool" where
  "isParentTask line = test_start PARENT_TASK_PATTERN line"

definition isSubtask :: "string \<Rightarrow> bool" where
  "isSubtask line = test_start SUBTASK_PATTERN line"

definition isCompleted :: "string \<Rightarrow> bool" where
  "isCompleted line = test_start COMPLETED_PATTERN line"


text \<open>The patterns that \<open>normalizeMetadataOrder\<close> writes inline.\<close>

definition DATE :: rx where
  "DATE = Seqs [Times 4 (Atom Digit), Lit ''-'', Times 2 (Atom Digit), Lit ''-'',
                Times 2 (Atom Digit)]"








definition STRIP_TO :: rx where
  "STRIP_TO = Seqs [Star (Atom Space), Lit ''[>'', Star (Atom Space), DATE, Lit '']'']"

definition STRIP_FROM :: rx where
  "STRIP_FROM = Seqs [Star (Atom Space), Lit ''[<'', Star (Atom Space), DATE, Lit '']'']"



text \<open>
  The numbers of the sort key and of the comparator: a finite integer, \<open>Infinity\<close>,
  \<open>-Infinity\<close> or \<open>NaN\<close>, with the subtraction and the strict inequality of JavaScript.
\<close>

datatype jsnum = Num int | Infinity | NegInfinity | NaN

fun js_minus :: "jsnum \<Rightarrow> jsnum \<Rightarrow> jsnum" where
  "js_minus (Num a) (Num b) = Num (a - b)"
| "js_minus NaN _ = NaN"
| "js_minus _ NaN = NaN"
| "js_minus Infinity Infinity = NaN"
| "js_minus NegInfinity NegInfinity = NaN"
| "js_minus Infinity _ = Infinity"
| "js_minus NegInfinity _ = NegInfinity"
| "js_minus (Num a) Infinity = NegInfinity"
| "js_minus (Num a) NegInfinity = Infinity"

definition js_neq :: "jsnum \<Rightarrow> jsnum \<Rightarrow> bool" where
  "js_neq a b \<longleftrightarrow> a = NaN \<or> b = NaN \<or> a \<noteq> b"

text \<open>\<open>parseInt\<close> on a string of decimal digits.\<close>

definition digit_val :: "char \<Rightarrow> int" where
  "digit_val c = int (of_char c) - 48"

definition parseInt :: "string \<Rightarrow> int" where
  "parseInt ds = foldl (\<lambda>n c. 10 * n + digit_val c) 0 ds"

record sortKey =
  hasTime :: bool
  key_start :: jsnum
  key_end :: jsnum

definition getTaskSortKey :: "string \<Rightarrow> sortKey" where
  "getTaskSortKey taskLine =
     (case exec_start TIMEBLOCK_PATTERN taskLine of
        Some m \<Rightarrow>
          \<lparr>hasTime = True,
           key_start = Num (parseInt (grp 0 (fst m)) * 60 + parseInt (grp 1 (fst m))),
           key_end = Num (parseInt (grp 2 (fst m)) * 60 + parseInt (grp 3 (fst m)))\<rparr>
      | None \<Rightarrow> \<lparr>hasTime = False, key_start = Infinity, key_end = Infinity\<rparr>)"

section \<open>TaskIdManager\<close>

text \<open>
  \<open>processContent\<close>: the loop over the lines, with the number of random draws made so
  far as the state of the random source.
\<close>

fun processLines :: "settings \<Rightarrow> (nat \<Rightarrow> nat) \<Rightarrow> nat \<Rightarrow> string list \<Rightarrow> string list" where
  "processLines st rnd k [] = []"
| "processLines st rnd k (line # rest) =
     (if isCalendarEvent line then line # processLines st rnd k rest
      else if isTask line then
        (if \<not> truthy (extractId line)
         then addId line (generateId st rnd k) # processLines st rnd (k + idLength st) rest
         else line # processLines st rnd k rest)
      else line # processLines st rnd k rest)"

definition processContent :: "settings \<Rightarrow> (nat \<Rightarrow> nat) \<Rightarrow> string \<Rightarrow> string" where
  "processContent st rnd content = join_nl (processLines st rnd 0 (split_nl content))"

section \<open>TaskSorter\<close>

text \<open>
  \<open>array.sort(compare)\<close>. The comparators of the program order their arguments by a
  key (a total preorder), and for such a comparator the language fixes the result: the
  stable sorted order. Insertion from the right computes it: an element stays in front of
  a later one unless the comparator is positive on the pair; a \<open>NaN\<close> result counts as
  zero.
\<close>

fun positive :: "jsnum \<Rightarrow> bool" where
  "positive (Num n) = (0 < n)"
| "positive Infinity = True"
| "positive NegInfinity = False"
| "positive NaN = False"

fun insert_by :: "('a \<Rightarrow> 'a \<Rightarrow> jsnum) \<Rightarrow> 'a \<Rightarrow> 'a list \<Rightarrow> 'a list" where
  "insert_by cmp x [] = [x]"
| "insert_by cmp x (y # ys) =
     (if positive (cmp x y) then y # insert_by cmp x ys else x # y # ys)"

definition js_sort :: "('a \<Rightarrow> 'a \<Rightarrow> jsnum) \<Rightarrow> 'a list \<Rightarrow> 'a list" where
  "js_sort cmp xs = foldr (insert_by cmp) xs []"

text \<open>The comparator of the three \<open>sort\<close> calls of \<open>sortContent\<close>, on the sort keys.\<close>

definition compareKeys :: "sortKey \<Rightarrow> sortKey \<Rightarrow> jsnum" where
  "compareKeys a b =
     (if hasTime a \<and> \<not> hasTime b then Num (-1)
      else if \<not> hasTime a \<and> hasTime b then Num 1
      else if js_neq (key_start a) (key_start b) then js_minus (key_start a) (key_start b)
      else js_minus (key_end a) (key_end b))"

definition COMPLETED_HEADING :: rx where
  "COMPLETED_HEADING =
     Seqs [Lit ''##'', Star (Atom Space),
           Atom (OneOf ''cC''), Atom (OneOf ''oO''), Atom (OneOf ''mM''), Atom (OneOf ''pP''),
           Atom (OneOf ''lL''), Atom (OneOf ''eE''), Atom (OneOf ''tT''), Atom (OneOf ''eE''),
           Atom (OneOf ''dD''),
           Star (Atom Space), Eol]"

definition isHeading :: "string \<Rightarrow> bool" where
  "isHeading line = test_start (Lit ''#'') line"

record parentTask =
  pt_id :: "string option"
  pt_line :: string
  pt_index :: nat

record subtask =
  sub_parentId :: "string option"
  sub_line :: string
  sub_index :: nat

record otherLine =
  ol_line :: string
  ol_index :: nat
  ol_isTaskArea :: bool

record completedTask =
  ct_id :: "string option"
  ct_parent :: string
  ct_subtasks :: "string list"

record taskGroup =
  parent :: string
  subtasks :: "string list"
  sortKey :: sortKey

text \<open>The variables of the first loop of \<open>sortContent\<close>.\<close>

record scan =
  completedTasks :: "completedTask list"
  inCompletedSection :: bool
  allParentTasks :: "parentTask list"
  allSubtasks :: "subtask list"
  otherLines :: "otherLine list"
  inTaskArea :: bool

definition scan0 :: scan where
  "scan0 = \<lparr>completedTasks = [], inCompletedSection = False, allParentTasks = [],
            allSubtasks = [], otherLines = [], inTaskArea = False\<rparr>"

text \<open>\<open>tasks[k].subtasks.push(line)\<close>, and the same on the last element.\<close>

definition push_subtask_at :: "nat \<Rightarrow> string \<Rightarrow> completedTask list \<Rightarrow> completedTask list" where
  "push_subtask_at k line ts = ts[k := (ts ! k)\<lparr>ct_subtasks := ct_subtasks (ts ! k) @ [line]\<rparr>]"

definition push_subtask_last :: "string \<Rightarrow> completedTask list \<Rightarrow> completedTask list" where
  "push_subtask_last line ts = push_subtask_at (length ts - 1) line ts"

text \<open>\<open>tasks.find(t => t.id === parentId)\<close>, as the index of the element found.\<close>

fun find_by_id :: "string \<Rightarrow> completedTask list \<Rightarrow> nat option" where
  "find_by_id pid [] = None"
| "find_by_id pid (t # ts) =
     (if ct_id t = Some pid then Some 0
      else case find_by_id pid ts of None \<Rightarrow> None | Some k \<Rightarrow> Some (Suc k))"

text \<open>One turn of the first loop, on line \<open>i\<close>.\<close>

definition scan_step :: "scan \<Rightarrow> nat \<times> string \<Rightarrow> scan" where
  "scan_step sc il =
     (let i = fst il; line = snd il in
      if test_start COMPLETED_HEADING line then sc\<lparr>inCompletedSection := True\<rparr>
      else if inCompletedSection sc then
        (if isParentTask line then
           sc\<lparr>completedTasks := completedTasks sc
                  @ [\<lparr>ct_id = extractId line, ct_parent = line, ct_subtasks = []\<rparr>]\<rparr>
         else if isSubtask line \<and> 0 < length (completedTasks sc) then
           (case extractParentId line of
              Some parentId \<Rightarrow>
                if parentId \<noteq> [] then
                  (case find_by_id parentId (completedTasks sc) of
                     Some k \<Rightarrow>
                       sc\<lparr>completedTasks := push_subtask_at k line (completedTasks sc)\<rparr>
                   | None \<Rightarrow>
                       sc\<lparr>completedTasks := push_subtask_last line (completedTasks sc)\<rparr>)
                else sc\<lparr>completedTasks := push_subtask_last line (completedTasks sc)\<rparr>
            | None \<Rightarrow> sc\<lparr>completedTasks := push_subtask_last line (completedTasks sc)\<rparr>)
         else if isHeading line then
           sc\<lparr>inCompletedSection := False,
              otherLines := otherLines sc
                @ [\<lparr>ol_line = line, ol_index = i, ol_isTaskArea = False\<rparr>]\<rparr>
         else sc)
      else if isParentTask line then
        sc\<lparr>inTaskArea := True,
           allParentTasks := allParentTasks sc
             @ [\<lparr>pt_id = extractId line, pt_line = line, pt_index = i\<rparr>]\<rparr>
      else if isSubtask line then
        sc\<lparr>allSubtasks := allSubtasks sc
             @ [\<lparr>sub_parentId = extractParentId line, sub_line = line, sub_index = i\<rparr>]\<rparr>
      else
        (let area = (if inTaskArea sc \<and> isHeading line then False else inTaskArea sc) in
         sc\<lparr>inTaskArea := area,
            otherLines := otherLines sc
              @ [\<lparr>ol_line = line, ol_index = i, ol_isTaskArea = area\<rparr>]\<rparr>))"

definition scanLines :: "string list \<Rightarrow> scan" where
  "scanLines lines = foldl scan_step scan0 (enumerate 0 lines)"

text \<open>
  The subtasks of a group: those whose parent id is the parent's id, then the legacy
  ones, without a parent id, whose closest parent above is this one.
\<close>

definition isDirectChild :: "parentTask list \<Rightarrow> nat \<Rightarrow> subtask \<Rightarrow> bool" where
  "isDirectChild ps parentIndex sub \<longleftrightarrow>
     \<not> list_ex (\<lambda>otherParent. parentIndex < pt_index otherParent
                               \<and> pt_index otherParent < sub_index sub) ps"

text \<open>
  \<open>parents.filter(p => p.index < subtask.index).sort((a, b) => b.index - a.index)[0]\<close>:
  the parent above the subtask with the greatest index. The indices of the parents are
  distinct and increasing, so it is the last parent above the subtask.
\<close>

definition closestParent :: "parentTask list \<Rightarrow> subtask \<Rightarrow> parentTask option" where
  "closestParent ps sub =
     (case js_sort (\<lambda>a b. Num (int (pt_index b) - int (pt_index a)))
             (filter (\<lambda>p. pt_index p < sub_index sub) ps) of
        [] \<Rightarrow> None
      | p # _ \<Rightarrow> Some p)"

fun legacySubtasks :: "parentTask list \<Rightarrow> nat \<Rightarrow> subtask list \<Rightarrow> string list \<Rightarrow> string list" where
  "legacySubtasks ps parentIndex [] acc = acc"
| "legacySubtasks ps parentIndex (sub # subs) acc =
     legacySubtasks ps parentIndex subs
       (if \<not> truthy (sub_parentId sub) then
          (case closestParent ps sub of
             Some cp \<Rightarrow>
               if pt_index cp = parentIndex \<and> isDirectChild ps parentIndex sub
                  \<and> sub_line sub \<notin> set acc
               then acc @ [sub_line sub] else acc
           | None \<Rightarrow> acc)
        else acc)"

definition buildGroup :: "parentTask list \<Rightarrow> subtask list \<Rightarrow> parentTask \<Rightarrow> taskGroup" where
  "buildGroup ps subs parentTask =
     (let byId = (if truthy (pt_id parentTask)
                  then map sub_line (filter (\<lambda>sub. sub_parentId sub = pt_id parentTask) subs)
                  else [])
      in \<lparr>parent = pt_line parentTask,
          subtasks = legacySubtasks ps (pt_index parentTask) subs byId,
          sortKey = getTaskSortKey (pt_line parentTask)\<rparr>)"

definition compareGroups :: "taskGroup \<Rightarrow> taskGroup \<Rightarrow> jsnum" where
  "compareGroups a b = compareKeys (sortKey a) (sortKey b)"

text \<open>
  \<open>allCompleted\<close> holds the completed groups and the entries of the \<open>## Completed\<close>
  section: a parent line and its subtasks, compared by the key of the parent line.
\<close>

type_synonym entry = "string \<times> string list"

definition compareEntries :: "entry \<Rightarrow> entry \<Rightarrow> jsnum" where
  "compareEntries a b = compareKeys (getTaskSortKey (fst a)) (getTaskSortKey (fst b))"

definition groupLines :: "taskGroup \<Rightarrow> string list" where
  "groupLines g = parent g # subtasks g"

definition entryLines :: "entry \<Rightarrow> string list" where
  "entryLines e = fst e # snd e"

text \<open>\<open>while (result.length > 0 && result[result.length - 1].trim() === '') result.pop()\<close>.\<close>

definition popBlank :: "string list \<Rightarrow> string list" where
  "popBlank result = rev (dropWhile (\<lambda>l. trim l = []) (rev result))"

definition taskGroups :: "scan \<Rightarrow> taskGroup list" where
  "taskGroups sc = map (buildGroup (allParentTasks sc) (allSubtasks sc)) (allParentTasks sc)"

definition incompleteGroups :: "scan \<Rightarrow> taskGroup list" where
  "incompleteGroups sc =
     js_sort compareGroups (filter (\<lambda>g. \<not> isCompleted (parent g)) (taskGroups sc))"

definition completedGroups :: "scan \<Rightarrow> taskGroup list" where
  "completedGroups sc =
     js_sort compareGroups (filter (\<lambda>g. isCompleted (parent g)) (taskGroups sc))"

definition allCompleted :: "scan \<Rightarrow> entry list" where
  "allCompleted sc =
     js_sort compareEntries
       (map (\<lambda>g. (parent g, subtasks g)) (completedGroups sc)
        @ map (\<lambda>t. (ct_parent t, ct_subtasks t)) (completedTasks sc))"

definition firstTaskIndex :: "scan \<Rightarrow> nat" where
  "firstTaskIndex sc =
     (case allParentTasks sc of [] \<Rightarrow> 0 | p # _ \<Rightarrow> pt_index p)"

definition lastTaskIndex :: "scan \<Rightarrow> nat" where
  "lastTaskIndex sc =
     (if 0 < length (allParentTasks sc)
      then foldr max (map pt_index (allParentTasks sc) @ map sub_index (allSubtasks sc)) 0
      else 0)"

definition linesBefore :: "scan \<Rightarrow> string list" where
  "linesBefore sc =
     map ol_line (filter (\<lambda>item. ol_index item < firstTaskIndex sc) (otherLines sc))"

definition linesAfter :: "scan \<Rightarrow> string list" where
  "linesAfter sc =
     map ol_line (filter (\<lambda>item. lastTaskIndex sc < ol_index item) (otherLines sc))"

definition sortLines :: "string list \<Rightarrow> string list" where
  "sortLines lines =
     (let sc = scanLines lines;
          result = linesBefore sc @ concat (map groupLines (incompleteGroups sc))
                   @ linesAfter sc
      in if 0 < length (allCompleted sc)
         then popBlank result @ [[], ''## Completed'']
              @ concat (map entryLines (allCompleted sc))
         else result)"

definition sortContent :: "string \<Rightarrow> string" where
  "sortContent content = join_nl (sortLines (split_nl content))"

section \<open>TaskArchiver\<close>

definition ARCHIVE_STATES :: rx where
  "ARCHIVE_STATES = Seqs [Star (Atom (Chr TAB)), Lit ''- ['', Atom (OneOf ''xX>-''), Lit '']'']"

definition ACTIVE_STATES :: rx where
  "ACTIVE_STATES = Seqs [Star (Atom (Chr TAB)), Lit ''- ['', Atom (OneOf '' /c''), Lit '']'']"

definition ARCHIVE_CALLOUT_START :: rx where
  "ARCHIVE_CALLOUT_START =
     Seqs [Lit ''> [!archived]'', Opt (Lit ''-''), Star (Atom Space), Lit ''Archived'',
           Star (Atom Space), Eol]"

definition ARCHIVE_LINE :: rx where
  "ARCHIVE_LINE = Lit ''> ''"

text \<open>The variables of the first pass of \<open>archiveContent\<close>.\<close>

record pass =
  calendarEvents :: "string list"
  activeTasks :: "string list"
  archivedTasks :: "string list"
  existingArchiveContent :: "string list"
  inArchiveSection :: bool


text \<open>
  The first pass, on the lines from \<open>i\<close> on: each turn takes one line, and a task line
  takes the subtask lines that follow it along.
\<close>

function categorize :: "pass \<Rightarrow> string list \<Rightarrow> pass" where
  "categorize ps [] = ps"
| "categorize ps (line # rest) =
     (if test_start ARCHIVE_CALLOUT_START line
      then categorize (ps\<lparr>inArchiveSection := True\<rparr>) rest
      else if inArchiveSection ps \<and> test_start ARCHIVE_LINE line
      then categorize (ps\<lparr>existingArchiveContent := existingArchiveContent ps @ [drop 2 line]\<rparr>)
             rest
      else
        (let ps = ps\<lparr>inArchiveSection := False\<rparr> in
         if test_start CALENDAR_EVENT_PATTERN line
         then categorize (ps\<lparr>calendarEvents := calendarEvents ps @ [line]\<rparr>) rest
         else if test_start ARCHIVE_STATES line
         then categorize
                (ps\<lparr>archivedTasks := archivedTasks ps
                       @ line # takeWhile (test_start SUBTASK_PATTERN) rest\<rparr>)
                (dropWhile (test_start SUBTASK_PATTERN) rest)
         else if test_start ACTIVE_STATES line
         then categorize
                (ps\<lparr>activeTasks := activeTasks ps
                       @ line # takeWhile (test_start SUBTASK_PATTERN) rest\<rparr>)
                (dropWhile (test_start SUBTASK_PATTERN) rest)
         else if trim line \<noteq> [] \<or> 0 < length (activeTasks ps)
         then categorize (ps\<lparr>activeTasks := activeTasks ps @ [line]\<rparr>) rest
         else categorize ps rest))"
  by pat_completeness auto
termination
  by (relation "measure (\<lambda>(ps, ls). length ls)")
     (auto simp: length_dropWhile_le less_Suc_eq_le)





section \<open>The vault, the editor and the workspace\<close>

text \<open>
  The host, as far as the scheduler uses it: the vault maps a path to a file with its
  content or to a folder; the editor holds the lines of the open document; the workspace
  knows the active file, with its path and its base name (the name without extension).
  \<open>clock\<close> is the date that \<open>getCurrentDate\<close> returns, and \<open>notices\<close> collects the
  notices shown, the latest last. The lines that the scheduler sets hold no line break
  when the dates hold none, so that setting a line of the editor is an update of the list.
\<close>

datatype node = TFile string | TFolder

record tfile =
  path :: string
  basename :: string

record world =
  editor :: "string list"
  activeFile :: "tfile option"
  vault :: "string \<rightharpoonup> node"
  notices :: "string list"
  clock :: string

text \<open>
  \<open>RangeError\<close>: \<open>editor.getLine\<close> on a line number that the document does not have.
  \<open>NotModelled\<close>: \<open>scheduleTask\<close> builds a pattern from the task id as it is; the model
  covers the ids that hold no syntax character of regular expressions, for which the
  pattern is the id itself, and stops with \<open>NotModelled\<close> on the others.
\<close>

datatype error = RangeError | NotModelled

definition Notice :: "string \<Rightarrow> world \<Rightarrow> world" where
  "Notice msg w = w\<lparr>notices := notices w @ [msg]\<rparr>"

definition modify :: "string \<Rightarrow> string \<Rightarrow> world \<Rightarrow> world" where
  "modify p content w = w\<lparr>vault := (vault w)(p \<mapsto> TFile content)\<rparr>"

definition create :: "string \<Rightarrow> string \<Rightarrow> world \<Rightarrow> world" where
  "create p content w = w\<lparr>vault := (vault w)(p \<mapsto> TFile content)\<rparr>"

definition createFolder :: "string \<Rightarrow> world \<Rightarrow> world" where
  "createFolder p w = w\<lparr>vault := (vault w)(p \<mapsto> TFolder)\<rparr>"

definition setLine :: "nat \<Rightarrow> string \<Rightarrow> world \<Rightarrow> world" where
  "setLine n text w = w\<lparr>editor := (editor w)[n := text]\<rparr>"

section \<open>TaskNoteManager\<close>

abbreviation DQ :: char where "DQ \<equiv> CHR 0x22"
abbreviation BSL :: char where "BSL \<equiv> CHR 0x5C"

definition TIME_RANGE :: rx where
  "TIME_RANGE =
     Seqs [Rep 1 2 (Atom Digit), Lit '':'', Times 2 (Atom Digit), Star (Atom Space), Lit ''-'',
           Star (Atom Space), Rep 1 2 (Atom Digit), Lit '':'', Times 2 (Atom Digit),
           Star (Atom Space)]"

definition WIKI_LINK :: rx where
  "WIKI_LINK =
     Seqs [Lit ''[['', Grp (Plus (Atom (NoneOf '']|''))), Opt (Lit ''|''),
           Grp (Star (Atom (NoneOf '']''))), Lit '']]'']"

definition INLINE_FIELD :: rx where
  "INLINE_FIELD =
     Seqs [Star (Atom Space), Lit ''['', Plus (Atom (NoneOf '']'')), Lit ''::'',
           Star (Atom (NoneOf '']'')), Lit '']'']"

definition SCHEDULE_TAG :: rx where
  "SCHEDULE_TAG =
     Seqs [Star (Atom Space), Lit ''['', Atom (OneOf ''<>''), Star (Atom Space), DATE, Lit '']'']"

definition cleanTaskText :: "string \<Rightarrow> string" where
  "cleanTaskText text =
     (let text = replace_all TIME_RANGE remove text;
          text = replace_all
                   (Seqs [LEGACY_DATE_ICON, Star (Atom Space), Lit ''[['',
                          Plus (Atom (NoneOf '']'')), Lit '']]'']) remove text;
          text = replace_all (Seqs [LEGACY_DATE_ICON, Star (Atom Space), DATE]) remove text;
          text = replace_all (Seqs [Lit ''#'', Plus (Atom Word)]) remove text;
          text = replace_all
                   (Seqs [LEGACY_LINK_ICON, Lit ''[['', Plus (Atom (NoneOf '']'')), Lit '']]''])
                   remove text;
          text = replace_all WIKI_LINK
                   (\<lambda>caps. if grp 1 caps \<noteq> [] then grp 1 caps else grp 0 caps) text;
          text = replace_all (Seqs [Atom (OneOf ICON_UNITS), Star (Atom NotSpace)]) remove text;
          text = replace_all BUTTON_ICON remove text;
          text = replace_all LEGACY_LINK_ICON remove text;
          text = replace_all INLINE_FIELD remove text;
          text = replace_all SCHEDULE_TAG remove text
      in trim (replace_all (Plus (Atom Space)) (\<lambda>caps. '' '') text))"

text \<open>\<open>s.substring(0, n)\<close> is \<open>take n s\<close>.\<close>

definition sanitizeFilename :: "string \<Rightarrow> string" where
  "sanitizeFilename text =
     take 100
       (trim
         (replace_all (Plus (Atom Space)) (\<lambda>caps. '' '')
           (replace_all (Plus (Lit ''-'')) (\<lambda>caps. ''-'')
             (replace_all (Atom (OneOf (BSL # ''/:*?'' @ [DQ] @ ''<>|#[]''))) (\<lambda>caps. ''-'')
               text))))"

definition extractTaskTextFromLine :: "string \<Rightarrow> string option" where
  "extractTaskTextFromLine line =
     (case exec_start
             (Seqs [Lit ''- ['', Atom Any, Lit '']'', Star (Atom Space),
                    Grp (Plus (Atom Any)), Eol]) line of
        None \<Rightarrow> None
      | Some taskMatch \<Rightarrow> Some (cleanTaskText (grp 0 (fst taskMatch))))"

definition extractCheckboxMarker :: "string \<Rightarrow> char option" where
  "extractCheckboxMarker line =
     (case exec_start (Seqs [Star (Atom (Chr TAB)), Lit ''- ['', Grp (Atom Any), Lit '']'']) line of
        None \<Rightarrow> None
      | Some m \<Rightarrow> (case grp 0 (fst m) of [c] \<Rightarrow> Some c | _ \<Rightarrow> None))"

definition sourceFileRegex :: rx where
  "sourceFileRegex =
     Seqs [Grp (Seqs [Lit ''sourceFile:'', Star (Atom Space), Lit [DQ]]),
           Grp (Star (Atom (NoneOf [DQ]))), Grp (Lit [DQ]), EolM]"

definition scheduledRegex :: rx where
  "scheduledRegex =
     Seqs [Grp (Seqs [Lit ''scheduled:'', Star (Atom Space)]), Grp (Plus (Atom NotSpace)), EolM]"

definition sourceLinkRegex :: rx where
  "sourceLinkRegex =
     Seqs [Grp (Seqs [Lit ''**Source:**'', Star (Atom Space)]), Lit ''[['',
           Plus (Atom (NoneOf '']'')), Lit '']]'']"

text \<open>\<open>path.replace(/\.md$/, '')\<close>.\<close>

definition dropMd :: "string \<Rightarrow> string" where
  "dropMd p = replace_first (Seq (Lit ''.md'') Eol) remove p"

text \<open>
  The path of the task note of a task text, when the sanitized name is not empty, and the
  content of the note when the vault has a file there.
\<close>

definition taskNotePath :: "settings \<Rightarrow> string \<Rightarrow> string option" where
  "taskNotePath st taskText =
     (let sanitizedName = sanitizeFilename taskText in
      if sanitizedName = [] then None
      else Some (taskNotesFolder st @ ''/'' @ sanitizedName @ ''.md''))"

definition updateTaskNoteSourceFile ::
  "settings \<Rightarrow> string \<Rightarrow> string \<Rightarrow> string \<Rightarrow> world \<Rightarrow> world" where
  "updateTaskNoteSourceFile st taskText newSourcePath scheduledDate w =
     (case taskNotePath st taskText of
        None \<Rightarrow> w
      | Some filePath \<Rightarrow>
          (case vault w filePath of
             Some (TFile content0) \<Rightarrow>
               (let content1 = replace_m sourceFileRegex (''$1'' @ newSourcePath @ ''$3'') content0;
                    content2 =
                      (if test_m scheduledRegex content1
                       then replace_m scheduledRegex (''$1'' @ scheduledDate) content1
                       else
                         (let insertAfterSourceFile =
                                replace_m
                                  (Seqs [Grp (Seqs [Lit ''sourceFile:'', Star (Atom Space),
                                                    Lit [DQ], Star (Atom (NoneOf [DQ])),
                                                    Lit [DQ]]), EolM])
                                  (''$1'' @ [NL] @ ''scheduled: '' @ scheduledDate) content1
                          in if insertAfterSourceFile \<noteq> content1 then insertAfterSourceFile
                             else replace_m (Seqs [Grp (Lit ''---''), EolM])
                                    (''scheduled: '' @ scheduledDate @ [NL] @ ''$1'') content1));
                    modified = (content1 \<noteq> content0 \<or> content2 \<noteq> content1
                                \<or> \<not> test_m scheduledRegex content1);
                    newLink = ''[['' @ dropMd newSourcePath @ '']]'';
                    content3 = replace_m sourceLinkRegex (''$1'' @ newLink) content2
                in if modified \<or> content3 \<noteq> content2 then modify filePath content3 w else w)
           | _ \<Rightarrow> w))"

section \<open>TaskScheduler\<close>

definition removeSchedulingTags :: "string \<Rightarrow> string" where
  "removeSchedulingTags line =
     replace_all (Seqs [Star (Atom Space), LEGACY_DATE_ICON, Star (Atom Space), DATE]) remove
       (replace_all
          (Seqs [Star (Atom Space), LEGACY_DATE_ICON, Star (Atom Space), Lit ''[['',
                 Plus (Atom (NoneOf '']'')), Lit '']]'']) remove
          (replace_all
             (Seqs [Star (Atom Space), Lit ''[sch_to::'', Plus (Atom (NoneOf '']'')), Lit '']''])
             remove
             (replace_all
                (Seqs [Star (Atom Space), Lit ''[sch_from::'', Plus (Atom (NoneOf '']'')),
                       Lit '']'']) remove
                (replace_all STRIP_TO remove (replace_all STRIP_FROM remove line)))))"

definition getCurrentDate :: "world \<Rightarrow> string" where
  "getCurrentDate w = clock w"

definition getDailyNotePath :: "string \<Rightarrow> settings \<Rightarrow> string" where
  "getDailyNotePath date st =
     (let dailyFolder = (case targetFolders st of
                           [] \<Rightarrow> ''00 - Daily/''
                         | f # _ \<Rightarrow> if f = [] then ''00 - Daily/'' else f);
          folder = replace_first (Seq (Lit ''/'') Eol) remove dailyFolder
      in folder @ ''/'' @ date @ ''.md'')"

text \<open>\<open>line.replace(/^([\t]*- \[)[^\]](\])/, '$1' + marker + '$2')\<close>.\<close>

definition setMarker :: "char \<Rightarrow> string \<Rightarrow> string" where
  "setMarker marker line =
     replace_start
       (Seqs [Grp (Seq (Star (Atom (Chr TAB))) (Lit ''- ['')), Atom (NoneOf '']''),
              Grp (Lit '']'')])
       (\<lambda>caps. grp 0 caps @ [marker] @ grp 1 caps) line"

definition createScheduledTaskCopy :: "string \<Rightarrow> string \<Rightarrow> string" where
  "createScheduledTaskCopy line fromDate =
     (let taskCopy = setMarker CHR '' '' line;
          taskCopy = removeSchedulingTags taskCopy;
          taskCopy = replace_all
                       (Seqs [Star (Atom Space), Lit ''[parent::'', Star (Atom Space),
                              Plus (Atom (NoneOf '']'')), Lit '']'']) remove taskCopy
      in trimEnd taskCopy @ '' [< '' @ fromDate @ '']'')"

definition markTaskAsScheduled :: "string \<Rightarrow> string \<Rightarrow> string" where
  "markTaskAsScheduled line toDate =
     (let newLine = setMarker CHR ''>'' line;
          newLine = replace_start
                      (Seqs [Grp (Seqs [Star (Atom (Chr TAB)), Lit ''- ['', Atom Any, Lit '']'',
                                        Star (Atom Space)]),
                             Rep 1 2 (Atom Digit), Lit '':'', Times 2 (Atom Digit),
                             Star (Atom Space), Lit ''-'', Star (Atom Space),
                             Rep 1 2 (Atom Digit), Lit '':'', Times 2 (Atom Digit),
                             Star (Atom Space)])
                      (\<lambda>caps. grp 0 caps) newLine;
          newLine = removeSchedulingTags newLine
      in trimEnd newLine @ '' [> '' @ toDate @ '']'')"





text \<open>
  The pattern \<open>\[id::\s*<taskId>\]\<close>. \<open>unscheduleTask\<close> escapes the id, so that the
  pattern holds the id as it is; \<open>scheduleTask\<close> does not, and is modelled on the ids
  without a syntax character.
\<close>

definition idPattern :: "string \<Rightarrow> rx" where
  "idPattern taskId = Seqs [Lit ''[id::'', Star (Atom Space), Lit taskId, Lit '']'']"

definition plainId :: "string \<Rightarrow> bool" where
  "plainId taskId \<longleftrightarrow> (\<forall>c \<in> set taskId. c \<notin> set (BSL # ''^$.*+?()[]{}|''))"

text \<open>
  \<open>taskId && idPattern.test(s)\<close>: the id is there, it is not empty, and its pattern
  matches somewhere in \<open>s\<close>.
\<close>

definition idMatches :: "string option \<Rightarrow> string \<Rightarrow> bool" where
  "idMatches taskId s =
     (case taskId of None \<Rightarrow> False | Some t \<Rightarrow> t \<noteq> [] \<and> test (idPattern t) s)"

definition plainOrNone :: "string option \<Rightarrow> bool" where
  "plainOrNone taskId = (case taskId of None \<Rightarrow> True | Some t \<Rightarrow> plainId t)"

text \<open>The first line that the pattern finds is replaced by \<open>f\<close> of it.\<close>

fun updateFirst :: "(string \<Rightarrow> bool) \<Rightarrow> (string \<Rightarrow> string) \<Rightarrow> string list \<Rightarrow> string list" where
  "updateFirst P f [] = []"
| "updateFirst P f (l # ls) = (if P l then f l # ls else l # updateFirst P f ls)"

text \<open>
  The loop over the subtask lines below line \<open>lineNum\<close>: the lines from \<open>i\<close> on, as long
  as they are subtasks, are set to \<open>f\<close> of them.
\<close>

definition mapSubtasks :: "(string \<Rightarrow> string) \<Rightarrow> nat \<Rightarrow> string list \<Rightarrow> string list" where
  "mapSubtasks f i lines =
     take i lines @ map f (takeWhile isSubtask (drop i lines))
     @ dropWhile isSubtask (drop i lines)"

text \<open>\<open>targetPath.substring(0, targetPath.lastIndexOf('/'))\<close>.\<close>

definition parentFolder :: "string \<Rightarrow> string" where
  "parentFolder p = rev (drop 1 (dropWhile (\<lambda>c. c \<noteq> CHR ''/'') (rev p)))"

text \<open>
  The steps of \<open>scheduleTask\<close>. \<open>ensureTarget\<close> creates the daily note of the target date,
  and its folder, when the vault has nothing at the path. \<open>newTargetContent\<close> is the new
  content of the target: the line that holds the id is reset and tagged, or a copy of the
  source line is appended. \<open>scheduleNote\<close> updates the task note of the line.
\<close>

definition ensureTarget :: "string \<Rightarrow> string \<Rightarrow> world \<Rightarrow> world" where
  "ensureTarget targetPath targetDate w =
     (case vault w targetPath of
        Some _ \<Rightarrow> w
      | None \<Rightarrow>
          let folder = parentFolder targetPath;
              w = (case vault w folder of
                     Some _ \<Rightarrow> w
                   | None \<Rightarrow> createFolder folder w)
          in Notice (''Created daily note: '' @ targetDate) (create targetPath [] w))"

definition newTargetContent :: "string option \<Rightarrow> string \<Rightarrow> string \<Rightarrow> string \<Rightarrow> string" where
  "newTargetContent taskId line fromDate targetContent =
     (let taskExistsInTarget = idMatches taskId targetContent in
      if taskExistsInTarget
      then join_nl
             (updateFirst (idMatches taskId)
                (\<lambda>l. trimEnd (removeSchedulingTags (setMarker CHR '' '' l))
                      @ '' [< '' @ fromDate @ '']'')
                (split_nl targetContent))
      else trimEnd targetContent @ [NL] @ createScheduledTaskCopy line fromDate)"

definition scheduleNote :: "settings \<Rightarrow> string \<Rightarrow> string \<Rightarrow> string \<Rightarrow> world \<Rightarrow> world" where
  "scheduleNote st line targetPath targetDate w =
     (case extractTaskTextFromLine line of
        Some taskText \<Rightarrow>
          if taskText \<noteq> []
          then updateTaskNoteSourceFile st taskText targetPath targetDate w
          else w
      | None \<Rightarrow> w)"

definition scheduleTask ::
  "settings \<Rightarrow> nat \<Rightarrow> string \<Rightarrow> world \<Rightarrow> error + bool \<times> world" where
  "scheduleTask st lineNum targetDate w =
     (if \<not> lineNum < length (editor w) then Inl RangeError
      else
        let line = editor w ! lineNum in
        if \<not> isTask line then Inr (False, Notice ''Not a task line'' w)
        else if includes_str line (''[> '' @ targetDate @ '']'')
        then Inr (False, Notice ''Task already scheduled to this date'' w)
        else
          let fromDate = (case activeFile w of
                            Some f \<Rightarrow> basename f
                          | None \<Rightarrow> getCurrentDate w);
              targetPath = getDailyNotePath targetDate st;
              w = ensureTarget targetPath targetDate w
          in case vault w targetPath of
               Some (TFile targetContent) \<Rightarrow>
                 let taskId = extractId line in
                 if \<not> plainOrNone taskId then Inl NotModelled
                 else
                   let w = modify targetPath
                             (newTargetContent taskId line fromDate targetContent) w;
                       w = setLine lineNum (markTaskAsScheduled line targetDate) w;
                       w = w\<lparr>editor := mapSubtasks (setMarker CHR ''>'') (lineNum + 1) (editor w)\<rparr>;
                       w = scheduleNote st line targetPath targetDate w
                   in Inr (True, Notice (''Task scheduled to '' @ targetDate) w)
             | _ \<Rightarrow> Inr (False, Notice ''Target is not a file'' w))"

text \<open>\<open>updateTaskNoteForUnschedule\<close>: the note points back to the current file.\<close>

definition updateTaskNoteForUnschedule ::
  "settings \<Rightarrow> string \<Rightarrow> string \<Rightarrow> string \<Rightarrow> world \<Rightarrow> world" where
  "updateTaskNoteForUnschedule st taskText currentFilePath currentDate w =
     (case taskNotePath st taskText of
        None \<Rightarrow> w
      | Some filePath \<Rightarrow>
          (case vault w filePath of
             Some (TFile content0) \<Rightarrow>
               (let content1 = replace_m sourceFileRegex (''$1'' @ currentFilePath @ ''$3'') content0;
                    content2 =
                      (if test_m scheduledRegex content1
                       then replace_m scheduledRegex (''$1'' @ currentDate) content1
                       else content1);
                    newLink = ''[['' @ dropMd currentFilePath @ '']]'';
                    content3 = replace_m sourceLinkRegex (''$1'' @ newLink) content2
                in if content1 \<noteq> content0 \<or> content2 \<noteq> content1 \<or> content3 \<noteq> content2
                   then modify filePath content3 w else w)
           | _ \<Rightarrow> w))"

text \<open>
  Step 3 of \<open>unscheduleTask\<close> on the lines of the target document: the first line that
  holds the id goes, with the subtask lines that follow it; then three or more line
  breaks in a row become two and the end is trimmed. \<open>None\<close> when no line holds the id.
\<close>

fun removeRun :: "(string \<Rightarrow> bool) \<Rightarrow> string list \<Rightarrow> string list option" where
  "removeRun P [] = None"
| "removeRun P (l # ls) =
     (if P l then Some (dropWhile isSubtask ls)
      else case removeRun P ls of None \<Rightarrow> None | Some ls' \<Rightarrow> Some (l # ls'))"

definition collapseBlankLines :: "string \<Rightarrow> string" where
  "collapseBlankLines content =
     replace_all (Seq (Times 3 (Lit [NL])) (Star (Lit [NL]))) (\<lambda>caps. [NL, NL]) content"

text \<open>
  Steps 3 and 4 of \<open>unscheduleTask\<close>: the copy goes from the target document when the
  date and the id are known and the target is a file that holds the id; the task note of
  the line points back to the active file.
\<close>

definition deleteScheduledCopy ::
  "settings \<Rightarrow> string option \<Rightarrow> string option \<Rightarrow> world \<Rightarrow> world" where
  "deleteScheduledCopy st targetDate taskId w =
     (case targetDate of
        Some date \<Rightarrow>
          if date \<noteq> [] \<and> truthy taskId then
            (let targetPath = getDailyNotePath date st in
             case vault w targetPath of
               Some (TFile targetContent) \<Rightarrow>
                 (case removeRun (idMatches taskId) (split_nl targetContent) of
                    Some lines' \<Rightarrow>
                      modify targetPath (trimEnd (collapseBlankLines (join_nl lines'))) w
                  | None \<Rightarrow> w)
             | _ \<Rightarrow> w)
          else w
      | None \<Rightarrow> w)"

definition unscheduleNote :: "settings \<Rightarrow> string \<Rightarrow> string \<Rightarrow> world \<Rightarrow> world" where
  "unscheduleNote st line currentDate w =
     (case extractTaskTextFromLine line of
        Some taskText \<Rightarrow>
          (case activeFile w of
             Some f \<Rightarrow>
               if taskText \<noteq> [] \<and> path f \<noteq> []
               then updateTaskNoteForUnschedule st taskText (path f) currentDate w
               else w
           | None \<Rightarrow> w)
      | None \<Rightarrow> w)"


text \<open>
  The host between two commands: it saves the document of the editor to the vault, and it
  opens a file of the vault in the editor. The lines of the editor are the lines of the
  content.
\<close>

definition saveEditor :: "world \<Rightarrow> world" where
  "saveEditor w =
     (case activeFile w of
        None \<Rightarrow> w
      | Some f \<Rightarrow> modify (path f) (join_nl (editor w)) w)"

definition openFile :: "tfile \<Rightarrow> world \<Rightarrow> world" where
  "openFile f w =
     (case vault w (path f) of
        Some (TFile content) \<Rightarrow> w\<lparr>editor := split_nl content, activeFile := Some f\<rparr>
      | _ \<Rightarrow> w)"

section \<open>The chronological order of the sorted document\<close>

text \<open>
  The order of the claim on sort keys: a key with a time block is before a key without,
  and two keys with a time block are ordered by the pair of start and end.
\<close>

fun js_less :: "jsnum \<Rightarrow> jsnum \<Rightarrow> bool" where
  "js_less (Num a) (Num b) = (a < b)"
| "js_less NaN _ = False"
| "js_less _ NaN = False"
| "js_less Infinity _ = False"
| "js_less _ Infinity = True"
| "js_less NegInfinity (Num b) = True"
| "js_less _ NegInfinity = False"

definition key_before :: "sortKey \<Rightarrow> sortKey \<Rightarrow> bool" where
  "key_before a b \<longleftrightarrow>
     (hasTime b \<longrightarrow> hasTime a) \<and>
     (hasTime a \<and> hasTime b \<longrightarrow>
        js_less (key_start a) (key_start b)
        \<or> key_start a = key_start b
           \<and> (js_less (key_end a) (key_end b) \<or> key_end a = key_end b))"

definition chronological :: "string list \<Rightarrow> bool" where
  "chronological ls = sorted_wrt key_before (map getTaskSortKey (filter isParentTask ls))"

definition wf_key :: "sortKey \<Rightarrow> bool" where
  "wf_key k \<longleftrightarrow>
     (if hasTime k then \<exists>a b. key_start k = Num a \<and> key_end k = Num b
      else key_start k = Infinity \<and> key_end k = Infinity)"

text \<open>The heading that \<open>sortContent\<close> writes above the completed groups.\<close>

definition HEADING :: string where
  "HEADING = ''## Completed''"

text \<open>The lines of the output above the heading of the completed section, and from it on.\<close>

definition aboveCompleted :: "string list \<Rightarrow> string list" where
  "aboveCompleted out = takeWhile (\<lambda>l. l \<noteq> HEADING) out"

definition fromCompleted :: "string list \<Rightarrow> string list" where
  "fromCompleted out = dropWhile (\<lambda>l. l \<noteq> HEADING) out"

text \<open>The groups are sorted on a stored key, which is the key of the parent line.\<close>

definition cmpLines :: "taskGroup \<Rightarrow> taskGroup \<Rightarrow> jsnum" where
  "cmpLines a b = compareKeys (getTaskSortKey (parent a)) (getTaskSortKey (parent b))"

text \<open>What the first loop of \<open>sortContent\<close> keeps true of the lines it files, all from \<open>L\<close>.\<close>

definition scan_inv :: "string set \<Rightarrow> scan \<Rightarrow> bool" where
  "scan_inv L sc \<longleftrightarrow>
     (\<forall>p \<in> set (allParentTasks sc). isParentTask (pt_line p) \<and> pt_line p \<in> L) \<and>
     (\<forall>s \<in> set (allSubtasks sc). isSubtask (sub_line s) \<and> sub_line s \<in> L) \<and>
     (\<forall>ol \<in> set (otherLines sc). \<not> isParentTask (ol_line ol)
         \<and> \<not> test_start COMPLETED_HEADING (ol_line ol) \<and> ol_line ol \<in> L) \<and>
     (\<forall>t \<in> set (completedTasks sc). isParentTask (ct_parent t) \<and> ct_parent t \<in> L
         \<and> (\<forall>l \<in> set (ct_subtasks t). isSubtask l \<and> l \<in> L))"

section \<open>The archive callout of the archived document\<close>

text \<open>
  The header that \<open>archiveContent\<close> writes, the lines of a document above the header and
  the lines below it.
\<close>

definition ARCHIVE_HEADER :: string where
  "ARCHIVE_HEADER = ''> [!archived]- Archived''"



text \<open>
  What the first pass of \<open>archiveContent\<close> keeps true of its lists: the lines come from
  \<open>L\<close>, the lines of the document, and no active line is the header.
\<close>

definition pass_inv :: "string set \<Rightarrow> pass \<Rightarrow> bool" where
  "pass_inv L ps \<longleftrightarrow>
     (\<forall>l \<in> set (calendarEvents ps) \<union> set (activeTasks ps). l \<in> L \<and> l \<noteq> ARCHIVE_HEADER) \<and>
     (\<forall>l \<in> set (archivedTasks ps). l \<in> L) \<and>
     (\<forall>l \<in> set (existingArchiveContent ps). \<exists>l0 \<in> L. l = drop 2 l0)"

text \<open>The seven ways a turn of the first pass goes.\<close>

datatype turn = Callout | Existing | Calendar | Archive | Active | Other | Skip

definition turn_of :: "pass \<Rightarrow> string \<Rightarrow> turn" where
  "turn_of ps line =
     (if test_start ARCHIVE_CALLOUT_START line then Callout
      else if inArchiveSection ps \<and> test_start ARCHIVE_LINE line then Existing
      else if test_start CALENDAR_EVENT_PATTERN line then Calendar
      else if test_start ARCHIVE_STATES line then Archive
      else if test_start ACTIVE_STATES line then Active
      else if trim line \<noteq> [] \<or> 0 < length (activeTasks ps) then Other
      else Skip)"

definition turn_pass :: "pass \<Rightarrow> string \<Rightarrow> string list \<Rightarrow> pass" where
  "turn_pass ps line rest =
     (case turn_of ps line of
        Callout \<Rightarrow> ps\<lparr>inArchiveSection := True\<rparr>
      | Existing \<Rightarrow> ps\<lparr>existingArchiveContent := existingArchiveContent ps @ [drop 2 line]\<rparr>
      | Calendar \<Rightarrow> ps\<lparr>inArchiveSection := False, calendarEvents := calendarEvents ps @ [line]\<rparr>
      | Archive \<Rightarrow>
          ps\<lparr>inArchiveSection := False,
             archivedTasks := archivedTasks ps
               @ line # takeWhile (test_start SUBTASK_PATTERN) rest\<rparr>
      | Active \<Rightarrow>
          ps\<lparr>inArchiveSection := False,
             activeTasks := activeTasks ps
               @ line # takeWhile (test_start SUBTASK_PATTERN) rest\<rparr>
      | Other \<Rightarrow> ps\<lparr>inArchiveSection := False, activeTasks := activeTasks ps @ [line]\<rparr>
      | Skip \<Rightarrow> ps\<lparr>inArchiveSection := False\<rparr>)"

definition turn_rest :: "pass \<Rightarrow> string \<Rightarrow> string list \<Rightarrow> string list" where
  "turn_rest ps line rest =
     (if turn_of ps line = Archive \<or> turn_of ps line = Active
      then dropWhile (test_start SUBTASK_PATTERN) rest else rest)"

section \<open>The bracketed tags of a line\<close>

text \<open>
  A line whose brackets do not nest is a text without \<open>[\<close>, followed by chunks: a chunk is
  a bracketed body \<open>[b]\<close>, \<open>b\<close> without \<open>[\<close> and \<open>]\<close>, and the text behind it up to the next
  \<open>[\<close>. \<open>render p cs\<close> is the line with the leading text \<open>p\<close> and the chunks \<open>cs\<close>.
\<close>

type_synonym chunk = "string \<times> string"

definition chunk_text :: "chunk \<Rightarrow> string" where
  "chunk_text c = CHR ''['' # fst c @ CHR '']'' # snd c"

definition render :: "string \<Rightarrow> chunk list \<Rightarrow> string" where
  "render p cs = p @ concat (map chunk_text cs)"

definition plain :: "string \<Rightarrow> bool" where
  "plain p \<longleftrightarrow> CHR ''['' \<notin> set p"

definition wf_chunk :: "chunk \<Rightarrow> bool" where
  "wf_chunk c \<longleftrightarrow> CHR ''['' \<notin> set (fst c) \<and> CHR '']'' \<notin> set (fst c) \<and> plain (snd c)"

text \<open>
  \<open>tag_rx R K val\<close>: the pattern \<open>R\<close> matches at a \<open>[\<close> only, and at a chunk it matches the
  bracketed body exactly when \<open>K\<close> holds of the body; the groups of the first match are then
  \<open>val\<close> of the body.
\<close>

definition tag_rx :: "rx \<Rightarrow> (string \<Rightarrow> bool) \<Rightarrow> (string \<Rightarrow> string list) \<Rightarrow> bool" where
  "tag_rx R K val \<longleftrightarrow>
     (\<forall>s. rxm R s \<noteq> [] \<longrightarrow> (\<exists>q. s = CHR ''['' # q)) \<and>
     (\<forall>b rest. CHR ''['' \<notin> set b \<and> CHR '']'' \<notin> set b \<longrightarrow>
        (if K b then \<exists>ms. rxm R (CHR ''['' # b @ CHR '']'' # rest) = (val b, rest) # ms
         else rxm R (CHR ''['' # b @ CHR '']'' # rest) = []))"

text \<open>
  One pass \<open>replace(/\s*<tag>/g, '')\<close> over a line given by its chunks: a chunk whose body is
  a tag goes with the white space before it, and the text behind it joins the text before.
\<close>

fun strip :: "(string \<Rightarrow> bool) \<Rightarrow> string \<Rightarrow> chunk list \<Rightarrow> string \<times> chunk list" where
  "strip K p [] = (p, [])"
| "strip K p (c # cs) =
     (if K (fst c) then strip K (trimEnd p @ snd c) cs
      else (case strip K (snd c) cs of (p', cs') \<Rightarrow> (p, (fst c, p') # cs')))"


text \<open>The result of a search behind a text \<open>u\<close> that holds no match.\<close>

definition shift :: "string \<Rightarrow> (string \<times> string list \<times> string) option
                     \<Rightarrow> (string \<times> string list \<times> string) option" where
  "shift u m = (case m of None \<Rightarrow> None | Some (pre, caps, rest) \<Rightarrow> Some (u @ pre, caps, rest))"

definition flat :: "string \<Rightarrow> chunk list \<Rightarrow> bool" where
  "flat p cs \<longleftrightarrow> plain p \<and> (\<forall>c \<in> set cs. wf_chunk c)"

fun is_date :: "string \<Rightarrow> bool" where
  "is_date [a, b, c, d, e, f, g, h, i, j] =
     (is_digit a \<and> is_digit b \<and> is_digit c \<and> is_digit d \<and> e = CHR ''-'' \<and>
      is_digit f \<and> is_digit g \<and> h = CHR ''-'' \<and> is_digit i \<and> is_digit j)"
| "is_date _ = False"

definition hasOpener :: "string \<Rightarrow> string \<Rightarrow> bool" where
  "hasOpener opn b \<longleftrightarrow> take (length opn) b = opn \<and> length opn < length b"













section \<open>The groups of the archiver\<close>






text \<open>A line without its leading tabs.\<close>

definition untab :: "string \<Rightarrow> string" where
  "untab l = dropWhile (\<lambda>c. c = TAB) l"




section \<open>The marker and the scheduling tags of a line\<close>



section \<open>Examples\<close>

text \<open>A daily note with a heading, a task without id, a subtask with id and a calendar event.\<close>

definition example_note :: string where
  "example_note = ''# Today'' @ [NL] @ ''- [ ] Buy milk  '' @ [NL] @ [TAB] @ ''- [x] sub [id::t-1]'' @ [NL] @ ''- [c] 09:00 - 10:00 Standup''"

text \<open>
  The daily note of Friday 2025-01-10 open in the editor, with the task of the dentist, and
  the same note after the task has been scheduled to 2025-01-12.
\<close>

definition friday :: tfile where
  "friday = \<lparr>path = ''00 - Daily/2025-01-10.md'', basename = ''2025-01-10''\<rparr>"

definition friday_world :: world where
  "friday_world =
     \<lparr>editor = [''# Friday'', ''- [ ] Call dentist [id::t-xy] '', ''- [ ] Water the plants''],
      activeFile = Some friday,
      vault = [''00 - Daily'' \<mapsto> TFolder, ''00 - Daily/2025-01-10.md'' \<mapsto> TFile []],
      notices = [],
      clock = ''2025-01-10''\<rparr>"

definition scheduled_world :: world where
  "scheduled_world =
     \<lparr>editor = [''# Friday'', ''- [>] Call dentist [id::t-xy] [> 2025-01-12]'',
                ''- [ ] Water the plants''],
      activeFile = Some friday,
      vault = [''00 - Daily'' \<mapsto> TFolder, ''00 - Daily/2025-01-10.md'' \<mapsto> TFile [],
               ''00 - Daily/2025-01-12.md'' \<mapsto>
                 TFile (NL # ''- [ ] Call dentist [id::t-xy] [< 2025-01-10]'')],
      notices = [],
      clock = ''2025-01-10''\<rparr>"

text \<open>A note with timed and untimed tasks, two of them done.\<close>

definition sort_example :: string where
  "sort_example =
     ''- [ ] water plants'' @ [NL] @ ''- [ ] 10:00 - 11:00 review'' @ [NL]
     @ ''- [x] 09:30 - 09:45 standup'' @ [NL] @ ''- [ ] 09:00 - 10:00 write'' @ [NL]
     @ ''- [x] 08:00 - 08:30 mail''"

text \<open>A note with a done task and its open subtask, a started task and a moved one.\<close>

definition archive_example :: string where
  "archive_example =
     ''- [x] done'' @ [NL, TAB] @ ''- [ ] open sub'' @ [NL] @ ''- [/] started'' @ [NL] @ ''- [>] moved''"

text \<open>The daily note of a date, as a file of the default daily folder.\<close>

definition day :: "string \<Rightarrow> tfile" where
  "day date = \<lparr>path = ''00 - Daily/'' @ date @ ''.md'', basename = date\<rparr>"

text \<open>
  A note with a task whose id tag holds a space before the bracket: the id is \<open>t1\<close>.
\<close>

definition rent_world :: world where
  "rent_world =
     \<lparr>editor = [''- [ ] Pay rent [id::t1 ]''],
      activeFile = Some (day ''2025-01-10''),
      vault = [''00 - Daily'' \<mapsto> TFolder,
               ''00 - Daily/2025-01-10.md'' \<mapsto> TFile ''- [ ] Pay rent [id::t1 ]''],
      notices = [],
      clock = ''2025-01-10''\<rparr>"

text \<open>
  A successful command, after which the host saves the document and opens the next one.
\<close>

definition and_open :: "tfile \<Rightarrow> error + bool \<times> world \<Rightarrow> world option" where
  "and_open f r =
     (case r of
        Inl e \<Rightarrow> None
      | Inr (ok, w) \<Rightarrow> if ok then Some (openFile f (saveEditor w)) else None)"

text \<open>
  The task is scheduled from 2025-01-10 to 2025-01-11, from there to 2025-01-12 and from
  there back to 2025-01-10; in the notes of 2025-01-11 and 2025-01-12 it is line 1.
\<close>

definition rent_cycle :: "world option" where
  "rent_cycle =
     (case and_open (day ''2025-01-11'') (scheduleTask DEFAULT_SETTINGS 0 ''2025-01-11'' rent_world) of
        None \<Rightarrow> None
      | Some w1 \<Rightarrow>
          (case and_open (day ''2025-01-12'') (scheduleTask DEFAULT_SETTINGS 1 ''2025-01-12'' w1) of
             None \<Rightarrow> None
           | Some w2 \<Rightarrow>
               and_open (day ''2025-01-10'') (scheduleTask DEFAULT_SETTINGS 1 ''2025-01-10'' w2)))"






section \<open>Lines and documents\<close>

lemma split_nl_nonempty: "split_nl s \<noteq> []"
  by (induction s) (auto split: list.splits)

lemma split_nl_no_nl: "l \<in> set (split_nl s) \<Longrightarrow> NL \<notin> set l"
  by (induction s arbitrary: l) (auto split: if_splits list.splits)

lemma split_nl_plain: "NL \<notin> set l \<Longrightarrow> split_nl l = [l]"
  by (induction l) auto

lemma split_nl_append: "NL \<notin> set l \<Longrightarrow> split_nl (l @ NL # s) = l # split_nl s"
  by (induction l) auto

lemma split_join_nl:
  "ls \<noteq> [] \<Longrightarrow> \<forall>l\<in>set ls. NL \<notin> set l \<Longrightarrow> split_nl (join_nl ls) = ls"
  by (induction ls rule: join_nl.induct) (auto simp: split_nl_plain split_nl_append)

lemma join_split_nl: "join_nl (split_nl s) = s"
proof (induction s)
  case Nil
  show ?case by simp
next
  case (Cons c s)
  obtain l ls where sp: "split_nl s = l # ls"
    using split_nl_nonempty [of s] by (cases "split_nl s") auto
  show ?case
  proof (cases "c = NL")
    case True
    with Cons sp show ?thesis by simp
  next
    case False
    with Cons sp show ?thesis by (cases ls) auto
  qed
qed

lemma set_trimEnd: "set (trimEnd s) \<subseteq> set s"
  unfolding trimEnd_def using set_dropWhileD [of _ is_space "rev s"] by auto

lemma length_draw: "length (draw rnd k n) = n"
  by (induction n arbitrary: k) auto

lemma set_draw: "set (draw rnd k n) \<subseteq> set chars"
proof (induction n arbitrary: k)
  case 0
  show ?case by simp
next
  case (Suc n)
  have "rnd k mod length chars < length chars" by (simp add: chars_def)
  then have "chars ! (rnd k mod length chars) \<in> set chars" by (rule nth_mem)
  with Suc show ?case by simp
qed

lemma length_processLines: "length (processLines st rnd k ls) = length ls"
  by (induction ls arbitrary: k) auto

lemma processLines_nth:
  "i < length ls \<Longrightarrow>
   (if isCalendarEvent (ls ! i) \<or> \<not> isTask (ls ! i) \<or> truthy (extractId (ls ! i))
    then processLines st rnd k ls ! i = ls ! i
    else \<exists>cs. length cs = idLength st \<and> set cs \<subseteq> set chars \<and>
           processLines st rnd k ls ! i = trimEnd (ls ! i) @ '' [id::'' @ idPrefix st @ cs @ '']'')"
proof (induction ls arbitrary: k i)
  case Nil
  then show ?case by simp
next
  case (Cons line rest)
  show ?case
  proof (cases i)
    case 0
    then show ?thesis
      using length_draw [of rnd k "idLength st"] set_draw [of rnd k "idLength st"]
      by (auto simp: addId_def generateId_def)
  next
    case (Suc j)
    with Cons.prems have j: "j < length rest" by simp
    obtain k' where k': "processLines st rnd k (line # rest) ! Suc j = processLines st rnd k' rest ! j"
      by (cases "isCalendarEvent line"; cases "isTask line"; cases "truthy (extractId line)") auto
    show ?thesis
      unfolding Suc k' nth_Cons_Suc by (rule Cons.IH [OF j])

  qed
qed

lemma processLines_no_nl:
  "NL \<notin> set (idPrefix st) \<Longrightarrow> \<forall>l\<in>set ls. NL \<notin> set l \<Longrightarrow>
   \<forall>l\<in>set (processLines st rnd k ls). NL \<notin> set l"
proof (induction ls arbitrary: k)
  case Nil
  show ?case by simp
next
  case (Cons line rest)
  have d: "NL \<notin> set (draw rnd k (idLength st))"
    using set_draw [of rnd k "idLength st"] by (auto simp: chars_def)
  have t: "NL \<notin> set (trimEnd line)"
    using set_trimEnd [of line] Cons.prems(2) by auto
  from Cons show ?case using d t
    by (auto simp: addId_def generateId_def)
qed

section \<open>The effects of the scheduler on the world\<close>

lemma editor_Notice [simp]: "editor (Notice m w) = editor w"
  and vault_Notice [simp]: "vault (Notice m w) = vault w"
  and activeFile_Notice [simp]: "activeFile (Notice m w) = activeFile w"
  by (simp_all add: Notice_def)

lemma editor_modify [simp]: "editor (modify p c w) = editor w"
  and vault_modify [simp]: "vault (modify p c w) = (vault w)(p \<mapsto> TFile c)"
  and activeFile_modify [simp]: "activeFile (modify p c w) = activeFile w"
  by (simp_all add: modify_def)

lemma editor_setLine [simp]: "editor (setLine n t w) = (editor w)[n := t]"
  and vault_setLine [simp]: "vault (setLine n t w) = vault w"
  and activeFile_setLine [simp]: "activeFile (setLine n t w) = activeFile w"
  by (simp_all add: setLine_def)

lemma editor_updateTaskNoteSourceFile [simp]:
  "editor (updateTaskNoteSourceFile st t p d w) = editor w"
  by (simp add: updateTaskNoteSourceFile_def Let_def split: option.splits node.splits)

lemma vault_updateTaskNoteSourceFile:
  "taskNotePath st t \<noteq> Some q \<Longrightarrow> vault (updateTaskNoteSourceFile st t p d w) q = vault w q"
  by (auto simp: updateTaskNoteSourceFile_def Let_def split: option.splits node.splits)

lemma editor_updateTaskNoteForUnschedule [simp]:
  "editor (updateTaskNoteForUnschedule st t p d w) = editor w"
  by (simp add: updateTaskNoteForUnschedule_def Let_def split: option.splits node.splits)


lemma mapSubtasks_nth_before:
  "n < i \<Longrightarrow> n < length ls \<Longrightarrow> mapSubtasks f i ls ! n = ls ! n"
  by (simp add: mapSubtasks_def nth_append)

lemma length_mapSubtasks [simp]: "length (mapSubtasks f i ls) = length ls"
proof -
  have "length (takeWhile isSubtask (drop i ls)) + length (dropWhile isSubtask (drop i ls))
        = length (drop i ls)"
    by (metis length_append takeWhile_dropWhile_id)
  then show ?thesis by (simp add: mapSubtasks_def min_def)
qed

lemma getDailyNotePath_folder:
  "\<exists>folder. getDailyNotePath date st = folder @ ''/'' @ date @ ''.md''"
  by (simp add: getDailyNotePath_def Let_def)

lemma parentFolder_neq:
  "parentFolder (folder @ ''/'' @ name) \<noteq> folder @ ''/'' @ name"
proof -
  have "length (parentFolder p) < length p" if "CHR ''/'' \<in> set p" for p
  proof -
    have "dropWhile (\<lambda>c. c \<noteq> CHR ''/'') (rev p) \<noteq> []"
      using that by (simp add: dropWhile_eq_Nil_conv) 
    then have "length (drop 1 (dropWhile (\<lambda>c. c \<noteq> CHR ''/'') (rev p)))
               < length (dropWhile (\<lambda>c. c \<noteq> CHR ''/'') (rev p))"
      by (cases "dropWhile (\<lambda>c. c \<noteq> CHR ''/'') (rev p)") auto
    also have "\<dots> \<le> length (rev p)" by (rule length_dropWhile_le)
    finally show ?thesis by (simp add: parentFolder_def)
  qed
  from this [of "folder @ ''/'' @ name"] show ?thesis by auto
qed

section \<open>The sorter\<close>

lemma wf_getTaskSortKey: "wf_key (getTaskSortKey l)"
  by (simp add: getTaskSortKey_def wf_key_def split: option.splits)

lemma positive_compareKeys:
  "wf_key a \<Longrightarrow> wf_key b \<Longrightarrow> positive (compareKeys a b) \<longleftrightarrow> \<not> key_before a b"
  by (auto simp: wf_key_def compareKeys_def key_before_def js_neq_def split: if_splits)

lemma key_before_total: "wf_key a \<Longrightarrow> wf_key b \<Longrightarrow> key_before a b \<or> key_before b a"
  by (auto simp: wf_key_def key_before_def split: if_splits)

lemma key_before_trans:
  "wf_key a \<Longrightarrow> wf_key b \<Longrightarrow> wf_key c \<Longrightarrow> key_before a b \<Longrightarrow> key_before b c \<Longrightarrow> key_before a c"
  by (auto simp: wf_key_def key_before_def split: if_splits)

lemma set_insert_by [simp]: "set (insert_by cmp x ys) = insert x (set ys)"
  by (induction ys) auto

lemma set_js_sort [simp]: "set (js_sort cmp xs) = set xs"
  by (induction xs) (auto simp: js_sort_def)

lemma sorted_insert_by:
  assumes key: "\<And>y z. positive (cmp y z) \<longleftrightarrow> \<not> key_before (k y) (k z)"
    and wf: "\<And>y. wf_key (k y)"
  shows "sorted_wrt (\<lambda>y z. key_before (k y) (k z)) ys
         \<Longrightarrow> sorted_wrt (\<lambda>y z. key_before (k y) (k z)) (insert_by cmp x ys)"
proof (induction ys)
  case Nil
  show ?case by simp
next
  case (Cons y ys)
  show ?case
  proof (cases "positive (cmp x y)")
    case True
    then have "key_before (k y) (k x)"
      using key key_before_total wf by blast
    with Cons True show ?thesis by auto
  next
    case False
    then have xy: "key_before (k x) (k y)" using key by blast
    have "key_before (k x) (k z)" if "z \<in> set ys" for z
      using that Cons.prems xy key_before_trans [OF wf wf wf, of x y z] by auto
    with Cons.prems xy False show ?thesis by auto
  qed
qed

lemma sorted_js_sort:
  assumes key: "\<And>y z. positive (cmp y z) \<longleftrightarrow> \<not> key_before (k y) (k z)"
    and wf: "\<And>y. wf_key (k y)"
  shows "sorted_wrt (\<lambda>y z. key_before (k y) (k z)) (js_sort cmp xs)"
proof (induction xs)
  case Nil
  show ?case by (simp add: js_sort_def)
next
  case (Cons x xs)
  have "js_sort cmp (x # xs) = insert_by cmp x (js_sort cmp xs)"
    by (simp add: js_sort_def)
  with Cons sorted_insert_by [OF key wf] show ?case by simp
qed

lemma sorted_allCompleted:
  "sorted_wrt key_before (map (\<lambda>e. getTaskSortKey (fst e)) (allCompleted sc))"
proof -
  have "sorted_wrt (\<lambda>y z. key_before (getTaskSortKey (fst y)) (getTaskSortKey (fst z)))
          (allCompleted sc)"
    unfolding allCompleted_def
    by (rule sorted_js_sort)
       (simp_all add: compareEntries_def positive_compareKeys wf_getTaskSortKey)
  then show ?thesis by (simp add: sorted_wrt_map)
qed

lemma insert_by_cong:
  "(\<And>y. y \<in> set ys \<Longrightarrow> c1 x y = c2 x y) \<Longrightarrow> insert_by c1 x ys = insert_by c2 x ys"
  by (induction ys) auto

lemma js_sort_cong:
  "(\<And>x y. x \<in> set xs \<Longrightarrow> y \<in> set xs \<Longrightarrow> c1 x y = c2 x y) \<Longrightarrow> js_sort c1 xs = js_sort c2 xs"
proof (induction xs)
  case Nil
  show ?case by (simp add: js_sort_def)
next
  case (Cons x xs)
  then have "js_sort c1 xs = js_sort c2 xs" by simp
  moreover have "insert_by c1 x (js_sort c2 xs) = insert_by c2 x (js_sort c2 xs)"
    by (rule insert_by_cong) (simp add: Cons.prems)
  ultimately show ?case by (simp add: js_sort_def)
qed

lemma sortKey_taskGroups:
  "g \<in> set (taskGroups sc) \<Longrightarrow> sortKey g = getTaskSortKey (parent g)"
  by (auto simp: taskGroups_def buildGroup_def Let_def)

lemma sorted_groups:
  assumes "set gs \<subseteq> set (taskGroups sc)"
  shows "sorted_wrt key_before (map (\<lambda>g. getTaskSortKey (parent g)) (js_sort compareGroups gs))"
proof -
  have "js_sort compareGroups gs = js_sort cmpLines gs"
  proof (rule js_sort_cong)
    fix x y assume "x \<in> set gs" "y \<in> set gs"
    with assms have "sortKey x = getTaskSortKey (parent x)" "sortKey y = getTaskSortKey (parent y)"
      by (auto intro: sortKey_taskGroups)
    then show "compareGroups x y = cmpLines x y"
      by (simp add: compareGroups_def cmpLines_def)
  qed
  moreover have "sorted_wrt (\<lambda>y z. key_before (getTaskSortKey (parent y)) (getTaskSortKey (parent z)))
          (js_sort cmpLines gs)"
    by (rule sorted_js_sort)
       (simp_all add: cmpLines_def positive_compareKeys wf_getTaskSortKey)
  ultimately show ?thesis by (simp add: sorted_wrt_map)
qed

lemma sorted_incompleteGroups:
  "sorted_wrt key_before (map (\<lambda>g. getTaskSortKey (parent g)) (incompleteGroups sc))"
  unfolding incompleteGroups_def by (rule sorted_groups) auto

lemma scan_inv0: "scan_inv L scan0"
  by (simp add: scan_inv_def scan0_def)

lemma in_push_subtask_at:
  assumes "t \<in> set (push_subtask_at k line ts)"
  shows "t \<in> set ts \<or> (\<exists>t0 \<in> set ts. t = t0\<lparr>ct_subtasks := ct_subtasks t0 @ [line]\<rparr>)"
proof (cases "k < length ts")
  case True
  then have "ts ! k \<in> set ts" by simp
  moreover from assms have "t \<in> insert ((ts ! k)\<lparr>ct_subtasks := ct_subtasks (ts ! k) @ [line]\<rparr>) (set ts)"
    unfolding push_subtask_at_def using set_update_subset_insert by fastforce
  ultimately show ?thesis by auto
next
  case False
  with assms show ?thesis by (simp add: push_subtask_at_def list_update_beyond)
qed

lemma step_allParentTasks:
  "p \<in> set (allParentTasks (scan_step sc (i, line))) \<Longrightarrow>
   p \<in> set (allParentTasks sc) \<or> pt_line p = line \<and> isParentTask line"
  by (auto simp: scan_step_def Let_def split: if_splits option.splits)

lemma step_allSubtasks:
  "s \<in> set (allSubtasks (scan_step sc (i, line))) \<Longrightarrow>
   s \<in> set (allSubtasks sc) \<or> sub_line s = line \<and> isSubtask line"
  by (auto simp: scan_step_def Let_def split: if_splits option.splits)

lemma step_otherLines:
  "ol \<in> set (otherLines (scan_step sc (i, line))) \<Longrightarrow>
   ol \<in> set (otherLines sc)
   \<or> ol_line ol = line \<and> \<not> isParentTask line \<and> \<not> test_start COMPLETED_HEADING line"
  by (auto simp: scan_step_def Let_def split: if_splits option.splits)

lemma step_completedTasks:
  "t \<in> set (completedTasks (scan_step sc (i, line))) \<Longrightarrow>
   t \<in> set (completedTasks sc)
   \<or> ct_parent t = line \<and> ct_subtasks t = [] \<and> isParentTask line
   \<or> isSubtask line \<and> (\<exists>t0 \<in> set (completedTasks sc). t = t0\<lparr>ct_subtasks := ct_subtasks t0 @ [line]\<rparr>)"
  by (auto simp: scan_step_def Let_def push_subtask_last_def
      split: if_splits option.splits dest: in_push_subtask_at)

lemma scan_step_inv:
  assumes "scan_inv L sc" "line \<in> L"
  shows "scan_inv L (scan_step sc (i, line))"
proof -
  have 1: "isParentTask (pt_line p) \<and> pt_line p \<in> L"
    if "p \<in> set (allParentTasks (scan_step sc (i, line)))" for p
    using step_allParentTasks [OF that] assms by (auto simp: scan_inv_def)
  have 2: "isSubtask (sub_line s) \<and> sub_line s \<in> L"
    if "s \<in> set (allSubtasks (scan_step sc (i, line)))" for s
    using step_allSubtasks [OF that] assms by (auto simp: scan_inv_def)
  have 3: "\<not> isParentTask (ol_line ol) \<and> \<not> test_start COMPLETED_HEADING (ol_line ol) \<and> ol_line ol \<in> L"
    if "ol \<in> set (otherLines (scan_step sc (i, line)))" for ol
    using step_otherLines [OF that] assms by (auto simp: scan_inv_def)
  have 4: "isParentTask (ct_parent t) \<and> ct_parent t \<in> L
        \<and> (\<forall>l \<in> set (ct_subtasks t). isSubtask l \<and> l \<in> L)"
    if "t \<in> set (completedTasks (scan_step sc (i, line)))" for t
    using step_completedTasks [OF that] assms by (auto simp: scan_inv_def)
  show ?thesis
    unfolding scan_inv_def using 1 2 3 4 by blast
qed

lemma foldl_scan_inv:
  "scan_inv L sc \<Longrightarrow> snd ` set ils \<subseteq> L \<Longrightarrow> scan_inv L (foldl scan_step sc ils)"
proof (induction ils arbitrary: sc)
  case Nil
  then show ?case by simp
next
  case (Cons il ils)
  obtain i line where il: "il = (i, line)" by (cases il)
  with Cons.prems have "scan_inv L (scan_step sc il)"
    by (simp add: scan_step_inv)
  with Cons show ?case by simp
qed

lemma scanLines_inv: "scan_inv (set lines) (scanLines lines)"
  unfolding scanLines_def
  by (rule foldl_scan_inv) (auto simp: scan_inv0 in_set_enumerate_eq)

lemma rxm_Seq_nonempty:
  "rxm (Seq a b) s \<noteq> [] \<longleftrightarrow> (\<exists>m \<in> set (rxm a s). rxm b (snd m) \<noteq> [])"
  by (auto simp: concat_eq_Nil_conv)

lemma rxm_Seq_first: "rxm (Seq a b) s \<noteq> [] \<Longrightarrow> rxm a s \<noteq> []"
  by (auto simp: rxm_Seq_nonempty)

lemma isParentTask_prefix: "isParentTask l \<Longrightarrow> take 3 l = ''- [''"
proof -
  assume "isParentTask l"
  then have "rxm (Lit ''- ['') l \<noteq> []"
    unfolding isParentTask_def test_start_def PARENT_TASK_PATTERN_def Seqs.simps
    by (rule rxm_Seq_first)
  then show ?thesis by (simp add: eval_nat_numeral split: if_splits)
qed

lemma isSubtask_prefix: "isSubtask l \<Longrightarrow> take 1 l = [TAB]"
proof -
  assume "isSubtask l"
  then have "rxm (Atom (Chr TAB)) l \<noteq> []"
    unfolding isSubtask_def test_start_def SUBTASK_PATTERN_def Seqs.simps Plus_def
    by (blast dest: rxm_Seq_first)
  then show ?thesis by (cases l) (auto split: if_splits)
qed

lemma subtask_not_parent: "isSubtask l \<Longrightarrow> \<not> isParentTask l"
  using isParentTask_prefix [of l] isSubtask_prefix [of l] by (cases l) auto

lemma blank_not_parent:
  assumes "trim l = []"
  shows "\<not> isParentTask l"
proof
  assume "isParentTask l"
  then obtain r where l: "l = CHR ''-'' # r"
    using isParentTask_prefix [of l] by (cases l) auto
  have "\<not> is_space CHR ''-''" by (simp add: is_space_def)
  then have "trim l \<noteq> []"
    by (simp add: trim_def trimStart_def trimEnd_def l dropWhile_append)
  with assms show False by simp
qed

lemma heading_facts:
  "\<not> isParentTask HEADING" "\<not> isSubtask HEADING" "test_start COMPLETED_HEADING HEADING"
  "\<not> isParentTask []"
  by code_simp+

lemma filter_popBlank: "filter isParentTask (popBlank ls) = filter isParentTask ls"
proof -
  have "ls = popBlank ls @ rev (takeWhile (\<lambda>l. trim l = []) (rev ls))"
    unfolding popBlank_def
    by (metis rev_append rev_rev_ident takeWhile_dropWhile_id)
  moreover have "filter isParentTask (rev (takeWhile (\<lambda>l. trim l = []) (rev ls))) = []"
    using blank_not_parent by (auto simp: filter_empty_conv dest: set_takeWhileD)
  ultimately show ?thesis by (metis append_Nil2 filter_append)
qed

lemma set_popBlank: "set (popBlank ls) \<subseteq> set ls"
  unfolding popBlank_def using set_dropWhileD by fastforce

lemma set_legacySubtasks:
  "set (legacySubtasks ps pidx subs acc) \<subseteq> set acc \<union> sub_line ` set subs"
proof (induction subs arbitrary: acc)
  case Nil
  show ?case by simp
next
  case (Cons sub subs)
  define acc' where "acc' =
    (if \<not> truthy (sub_parentId sub) then
       (case closestParent ps sub of
          Some cp \<Rightarrow>
            if pt_index cp = pidx \<and> isDirectChild ps pidx sub \<and> sub_line sub \<notin> set acc
            then acc @ [sub_line sub] else acc
        | None \<Rightarrow> acc)
     else acc)"
  have a: "legacySubtasks ps pidx (sub # subs) acc = legacySubtasks ps pidx subs acc'"
    by (simp add: acc'_def)
  have b: "set acc' \<subseteq> set acc \<union> {sub_line sub}"
    by (auto simp: acc'_def split: option.splits)
  from Cons [of acc'] b show ?case unfolding a by auto
qed

lemma taskGroups_lines:
  assumes "scan_inv L sc" "g \<in> set (taskGroups sc)"
  shows "isParentTask (parent g) \<and> parent g \<in> L \<and> (\<forall>l \<in> set (subtasks g). isSubtask l \<and> l \<in> L)"
proof -
  from assms(2) obtain p where p: "p \<in> set (allParentTasks sc)"
    and g: "g = buildGroup (allParentTasks sc) (allSubtasks sc) p"
    by (auto simp: taskGroups_def)
  have "set (subtasks g) \<subseteq> sub_line ` set (allSubtasks sc)"
  proof (cases "truthy (pt_id p)")
    case True
    then show ?thesis
      unfolding g buildGroup_def Let_def
      using set_legacySubtasks [of "allParentTasks sc" "pt_index p" "allSubtasks sc"
          "map sub_line (filter (\<lambda>sub. sub_parentId sub = pt_id p) (allSubtasks sc))"]
      by auto
  next
    case False
    then show ?thesis
      unfolding g buildGroup_def Let_def
      using set_legacySubtasks [of "allParentTasks sc" "pt_index p" "allSubtasks sc" "[]"]
      by auto
  qed
  moreover have "parent g = pt_line p" by (simp add: g buildGroup_def Let_def)
  ultimately show ?thesis using assms(1) p by (auto simp: scan_inv_def)
qed

lemma filter_groupLines:
  assumes "\<forall>g \<in> set gs. isParentTask (parent g) \<and> (\<forall>l \<in> set (subtasks g). isSubtask l)"
  shows "filter isParentTask (concat (map groupLines gs)) = map parent gs"
  using assms
  by (induction gs) (auto simp: groupLines_def filter_empty_conv dest: subtask_not_parent)

lemma filter_entryLines:
  assumes "\<forall>e \<in> set es. isParentTask (fst e) \<and> (\<forall>l \<in> set (snd e). isSubtask l)"
  shows "filter isParentTask (concat (map entryLines es)) = map fst es"
  using assms
  by (induction es) (auto simp: entryLines_def filter_empty_conv dest: subtask_not_parent)

lemma incompleteGroups_lines:
  assumes "scan_inv L sc" "g \<in> set (incompleteGroups sc)"
  shows "isParentTask (parent g) \<and> parent g \<in> L \<and> (\<forall>l \<in> set (subtasks g). isSubtask l \<and> l \<in> L)"
  using assms taskGroups_lines [of L sc g] by (simp add: incompleteGroups_def)

lemma allCompleted_lines:
  assumes "scan_inv L sc" "e \<in> set (allCompleted sc)"
  shows "isParentTask (fst e) \<and> fst e \<in> L \<and> (\<forall>l \<in> set (snd e). isSubtask l \<and> l \<in> L)"
proof -
  from assms(2) consider g where "g \<in> set (taskGroups sc)" "e = (parent g, subtasks g)"
    | t where "t \<in> set (completedTasks sc)" "e = (ct_parent t, ct_subtasks t)"
    by (auto simp: allCompleted_def completedGroups_def)
  then show ?thesis
  proof cases
    case 1
    with taskGroups_lines [OF assms(1) 1(1)] show ?thesis by simp
  next
    case 2
    with assms(1) show ?thesis by (auto simp: scan_inv_def)
  qed
qed

lemma otherLines_lines:
  assumes "scan_inv L sc" "l \<in> set (linesBefore sc) \<union> set (linesAfter sc)"
  shows "\<not> isParentTask l \<and> l \<noteq> HEADING \<and> l \<in> L"
  using assms heading_facts(3)
  by (auto simp: scan_inv_def linesBefore_def linesAfter_def)

lemma sortLines_parts:
  fixes lines
  defines "sc \<equiv> scanLines lines"
  shows "filter isParentTask (aboveCompleted (sortLines lines)) = map parent (incompleteGroups sc)"
    and "filter isParentTask (fromCompleted (sortLines lines)) = map fst (allCompleted sc)"
    and "set (sortLines lines) \<subseteq> set lines \<union> {[], HEADING}"
proof -
  have inv: "scan_inv (set lines) sc" unfolding sc_def by (rule scanLines_inv)
  let ?G = "concat (map groupLines (incompleteGroups sc))"
  let ?body = "linesBefore sc @ ?G @ linesAfter sc"
  let ?C = "concat (map entryLines (allCompleted sc))"
  have G: "filter isParentTask ?G = map parent (incompleteGroups sc)"
    using incompleteGroups_lines [OF inv] by (intro filter_groupLines) blast
  have C: "filter isParentTask ?C = map fst (allCompleted sc)"
    using allCompleted_lines [OF inv] by (intro filter_entryLines) blast
  have Gl: "l \<noteq> HEADING \<and> l \<in> set lines" if "l \<in> set ?G" for l
  proof -
    from that obtain g where g: "g \<in> set (incompleteGroups sc)"
      and l: "l = parent g \<or> l \<in> set (subtasks g)"
      by (auto simp: groupLines_def)
    from incompleteGroups_lines [OF inv g] l
    have "(isParentTask l \<or> isSubtask l) \<and> l \<in> set lines" by auto
    with heading_facts(1,2) show ?thesis by auto
  qed
  have Cl: "l \<in> set lines" if "l \<in> set ?C" for l
    using that allCompleted_lines [OF inv] by (auto simp: entryLines_def)
  have bl: "l \<noteq> HEADING \<and> l \<in> set lines" if "l \<in> set ?body" for l
    using that Gl otherLines_lines [OF inv] by auto
  have fb: "filter isParentTask ?body = map parent (incompleteGroups sc)"
    using otherLines_lines [OF inv] by (simp add: G filter_empty_conv)
  have out: "sortLines lines =
      (if 0 < length (allCompleted sc) then popBlank ?body @ [[], HEADING] @ ?C else ?body)"
    by (simp add: sortLines_def Let_def sc_def HEADING_def)
  have pb: "l \<noteq> HEADING" if "l \<in> set (popBlank ?body @ [[]])" for l
  proof (cases "l = []")
    case True
    then show ?thesis by (simp add: HEADING_def)
  next
    case False
    with that have "l \<in> set ?body" using set_popBlank [of ?body] by auto
    with bl show ?thesis by blast
  qed
  show "filter isParentTask (aboveCompleted (sortLines lines)) = map parent (incompleteGroups sc)"
  proof (cases "0 < length (allCompleted sc)")
    case True
    have "sortLines lines = (popBlank ?body @ [[]]) @ HEADING # ?C"
      using True by (simp add: out)
    then have "aboveCompleted (sortLines lines) = popBlank ?body @ [[]]"
      unfolding aboveCompleted_def using pb by (simp add: takeWhile_tail del: append_assoc)
    then show ?thesis using fb by (simp add: filter_popBlank heading_facts)
  next
    case False
    then have "aboveCompleted (sortLines lines) = ?body"
      unfolding aboveCompleted_def using bl by (simp add: out takeWhile_eq_all_conv)
    then show ?thesis using fb by simp
  qed
  show "filter isParentTask (fromCompleted (sortLines lines)) = map fst (allCompleted sc)"
  proof (cases "0 < length (allCompleted sc)")
    case True
    have "sortLines lines = (popBlank ?body @ [[]]) @ HEADING # ?C"
      using True by (simp add: out)
    then have "fromCompleted (sortLines lines) = HEADING # ?C"
      unfolding fromCompleted_def using pb by (simp add: dropWhile_append3 del: append_assoc)
    then show ?thesis by (simp add: C heading_facts)
  next
    case False
    then have "fromCompleted (sortLines lines) = []"
      unfolding fromCompleted_def using bl by (simp add: out)
    with False show ?thesis by simp
  qed
  have pl: "l \<in> set lines" if "l \<in> set (popBlank ?body)" for l
    using that bl set_popBlank [of ?body] by blast
  show "set (sortLines lines) \<subseteq> set lines \<union> {[], HEADING}"
  proof
    fix l assume "l \<in> set (sortLines lines)"
    then have "l \<in> set ?body \<or> l \<in> set (popBlank ?body) \<or> l = [] \<or> l = HEADING \<or> l \<in> set ?C"
      unfolding out by (auto split: if_splits)
    with bl pl Cl show "l \<in> set lines \<union> {[], HEADING}" by blast
  qed
qed

lemma sorted_above: "chronological (aboveCompleted (sortLines lines))"
  unfolding chronological_def sortLines_parts(1)
  using sorted_incompleteGroups [of "scanLines lines"] by (simp add: comp_def)

lemma sorted_from: "chronological (fromCompleted (sortLines lines))"
  unfolding chronological_def sortLines_parts(2)
  using sorted_allCompleted [of "scanLines lines"] by (simp add: comp_def)

lemma split_sortContent:
  "split_nl (sortContent content) =
     (if sortLines (split_nl content) = [] then [[]] else sortLines (split_nl content))"
proof (cases "sortLines (split_nl content) = []")
  case True
  then show ?thesis by (simp add: sortContent_def)
next
  case False
  have "NL \<notin> set l" if "l \<in> set (sortLines (split_nl content))" for l
  proof -
    from that sortLines_parts(3) [of "split_nl content"]
    have "l \<in> set (split_nl content) \<or> l = [] \<or> l = HEADING" by auto
    then show ?thesis using split_nl_no_nl by (auto simp: HEADING_def)
  qed
  with False show ?thesis by (simp add: sortContent_def split_join_nl)
qed

section \<open>The archiver\<close>

lemma rxm_Lit_Nil: "rxm (Lit []) s = [([], s)]"
  by simp

lemma rxm_Lit_Cons_Nil: "rxm (Lit (c # p)) [] = []"
  by simp

lemma rxm_Lit_Cons_Cons:
  "rxm (Lit (c # p)) (x # xs) = (if x = c then rxm (Lit p) xs else [])"
  by auto

lemma rxm_Atom_Nil: "rxm (Atom c) [] = []"
  by simp

lemma rxm_Atom_Cons: "rxm (Atom c) (x # xs) = (if cls_ok c x then [([], xs)] else [])"
  by simp

lemmas rxm_step = rxm_Lit_Nil rxm_Lit_Cons_Nil rxm_Lit_Cons_Cons rxm_Atom_Nil rxm_Atom_Cons

lemma star_tab_dash [simp]:
  "rxm (Star (Atom (Chr TAB))) (CHR ''-'' # s) = [([], CHR ''-'' # s)]"
  by simp

lemma list5_cases:
  obtains "l = []" | a where "l = [a]" | a b where "l = [a, b]" | a b c where "l = [a, b, c]"
    | a b c d where "l = [a, b, c, d]" | a b c d e r where "l = a # b # c # d # e # r"
  by (metis list.exhaust)

lemma parent_shape:
  "isParentTask l \<longleftrightarrow> (\<exists>m r. l = CHR ''-'' # CHR '' '' # CHR ''['' # m # CHR '']'' # r \<and> \<not> is_line_end m)"
  by (cases l rule: list5_cases)
     (auto simp: isParentTask_def test_start_def PARENT_TASK_PATTERN_def rxm_step
      simp del: rxm.simps(1,2) split: if_splits)

lemma parent_marker:
  assumes "l = CHR ''-'' # CHR '' '' # CHR ''['' # m # CHR '']'' # r" "\<not> is_line_end m"
  shows "extractCheckboxMarker l = Some m"
    and "test_start ARCHIVE_STATES l \<longleftrightarrow> m \<in> set ''xX>-''"
    and "test_start ACTIVE_STATES l \<longleftrightarrow> m \<in> set '' /c''"
    and "test_start CALENDAR_EVENT_PATTERN l \<longleftrightarrow> m = CHR ''c''"
    and "\<not> test_start ARCHIVE_CALLOUT_START l"
    and "\<not> test_start ARCHIVE_LINE l"
    and "\<not> test_start SUBTASK_PATTERN l"
    and "trim l \<noteq> []"
  using assms
  by (auto simp: extractCheckboxMarker_def exec_start_def test_start_def ARCHIVE_STATES_def
      ACTIVE_STATES_def CALENDAR_EVENT_PATTERN_def ARCHIVE_CALLOUT_START_def ARCHIVE_LINE_def
      SUBTASK_PATTERN_def Plus_def grp_def rxm_step trim_def trimStart_def trimEnd_def
      is_space_def dropWhile_append
      simp del: rxm.simps(1,2) split: list.splits if_splits)

lemma header_facts:
  "test_start ARCHIVE_CALLOUT_START ARCHIVE_HEADER" "\<not> test_start SUBTASK_PATTERN ARCHIVE_HEADER"
  by code_simp+


lemma pass_inv_flag [simp]: "pass_inv L (ps\<lparr>inArchiveSection := b\<rparr>) = pass_inv L ps"
  by (simp add: pass_inv_def)

lemma pass_inv_calendar:
  "pass_inv L ps \<Longrightarrow> line \<in> L \<Longrightarrow> \<not> test_start ARCHIVE_CALLOUT_START line \<Longrightarrow>
   pass_inv L (ps\<lparr>calendarEvents := calendarEvents ps @ [line]\<rparr>)"
  using header_facts(1) by (auto simp: pass_inv_def)

lemma pass_inv_active:
  "pass_inv L ps \<Longrightarrow> line \<in> L \<Longrightarrow> \<not> test_start ARCHIVE_CALLOUT_START line \<Longrightarrow> set rest \<subseteq> L \<Longrightarrow>
   pass_inv L (ps\<lparr>activeTasks := activeTasks ps @ line # takeWhile (test_start SUBTASK_PATTERN) rest\<rparr>)"
  using header_facts by (auto simp: pass_inv_def dest!: set_takeWhileD)

lemma pass_inv_other:
  "pass_inv L ps \<Longrightarrow> line \<in> L \<Longrightarrow> \<not> test_start ARCHIVE_CALLOUT_START line \<Longrightarrow>
   pass_inv L (ps\<lparr>activeTasks := activeTasks ps @ [line]\<rparr>)"
  using header_facts by (auto simp: pass_inv_def)

lemma pass_inv_archived:
  "pass_inv L ps \<Longrightarrow> line \<in> L \<Longrightarrow> set rest \<subseteq> L \<Longrightarrow>
   pass_inv L (ps\<lparr>archivedTasks := archivedTasks ps @ line # takeWhile (test_start SUBTASK_PATTERN) rest\<rparr>)"
  by (auto simp: pass_inv_def dest!: set_takeWhileD)

lemma pass_inv_existing:
  "pass_inv L ps \<Longrightarrow> line \<in> L \<Longrightarrow>
   pass_inv L (ps\<lparr>existingArchiveContent := existingArchiveContent ps @ [drop 2 line]\<rparr>)"
  by (auto simp: pass_inv_def)

lemma set_dropWhile_subset: "set (dropWhile P xs) \<subseteq> set xs"
  using set_dropWhileD by fastforce

lemma categorize_turn:
  "categorize ps (line # rest) = categorize (turn_pass ps line rest) (turn_rest ps line rest)"
  by (simp add: turn_pass_def turn_rest_def turn_of_def Let_def)

lemma length_turn_rest: "length (turn_rest ps line rest) \<le> length rest"
  by (simp add: turn_rest_def length_dropWhile_le)




text \<open>The lists of the pass only grow.\<close>

lemma turn_pass_mono:
  "set (archivedTasks ps) \<subseteq> set (archivedTasks (turn_pass ps line rest))
   \<and> set (activeTasks ps) \<subseteq> set (activeTasks (turn_pass ps line rest))"
  by (cases "turn_of ps line") (auto simp: turn_pass_def)

lemma categorize_mono:
  "set (archivedTasks ps) \<subseteq> set (archivedTasks (categorize ps ls))
   \<and> set (activeTasks ps) \<subseteq> set (activeTasks (categorize ps ls))"
proof (induction "length ls" arbitrary: ps ls rule: less_induct)
  case less
  show ?case
  proof (cases ls)
    case Nil
    then show ?thesis by simp
  next
    case (Cons line rest)
    have "length (turn_rest ps line rest) < length ls"
      using length_turn_rest [of ps line rest] Cons by simp
    from less.hyps [OF this, of "turn_pass ps line rest"] turn_pass_mono [of ps line rest]
    show ?thesis unfolding Cons categorize_turn by blast
  qed
qed

text \<open>Where a top-level task line of the document goes.\<close>

lemma categorize_parent:
  assumes "l \<in> set ls" "isParentTask l"
  shows "(test_start ARCHIVE_STATES l \<and> \<not> test_start CALENDAR_EVENT_PATTERN l
            \<longrightarrow> l \<in> set (archivedTasks (categorize ps ls)))
       \<and> (test_start ACTIVE_STATES l \<and> \<not> test_start ARCHIVE_STATES l
            \<and> \<not> test_start CALENDAR_EVENT_PATTERN l
            \<longrightarrow> l \<in> set (activeTasks (categorize ps ls)))"
  using assms(1)
proof (induction "length ls" arbitrary: ps ls rule: less_induct)
  case less
  from less.prems obtain line rest where Cons: "ls = line # rest" by (cases ls) auto
  obtain m r where l: "l = CHR ''-'' # CHR '' '' # CHR ''['' # m # CHR '']'' # r" "\<not> is_line_end m"
    using assms(2) parent_shape by blast
  note pm = parent_marker [OF l]
  have len: "length (turn_rest ps line rest) < length ls"
    using length_turn_rest [of ps line rest] Cons by simp
  show ?case
  proof (cases "l = line")
    case True
    have t: "turn_of ps l =
        (if test_start CALENDAR_EVENT_PATTERN l then Calendar
         else if test_start ARCHIVE_STATES l then Archive
         else if test_start ACTIVE_STATES l then Active
         else Other)"
      using pm(5,6,8) by (simp add: turn_of_def)
    have "(test_start ARCHIVE_STATES l \<and> \<not> test_start CALENDAR_EVENT_PATTERN l
            \<longrightarrow> l \<in> set (archivedTasks (turn_pass ps line rest)))
       \<and> (test_start ACTIVE_STATES l \<and> \<not> test_start ARCHIVE_STATES l
            \<and> \<not> test_start CALENDAR_EVENT_PATTERN l
            \<longrightarrow> l \<in> set (activeTasks (turn_pass ps line rest)))"
      using True t by (auto simp: turn_pass_def)
    with categorize_mono [of "turn_pass ps line rest" "turn_rest ps line rest"]
    show ?thesis unfolding Cons categorize_turn by blast
  next
    case False
    with less.prems Cons have "l \<in> set rest" by simp
    moreover have "l \<notin> set (takeWhile (test_start SUBTASK_PATTERN) rest)"
      using pm(7) by (auto dest: set_takeWhileD)
    ultimately have "l \<in> set (turn_rest ps line rest)"
      unfolding turn_rest_def
      by (metis Un_iff set_append takeWhile_dropWhile_id)
    from less.hyps [OF len this] show ?thesis unfolding Cons categorize_turn .
  qed
qed





section \<open>The steps of the scheduler\<close>


lemma editor_deleteScheduledCopy [simp]:
  "editor (deleteScheduledCopy st d i w) = editor w"
  by (simp add: deleteScheduledCopy_def Let_def split: option.splits node.splits)

lemma activeFile_deleteScheduledCopy [simp]:
  "activeFile (deleteScheduledCopy st d i w) = activeFile w"
  by (simp add: deleteScheduledCopy_def Let_def split: option.splits node.splits)

lemma editor_unscheduleNote [simp]: "editor (unscheduleNote st l d w) = editor w"
  by (simp add: unscheduleNote_def split: option.splits)


lemma editor_scheduleNote [simp]: "editor (scheduleNote st l p d w) = editor w"
  by (simp add: scheduleNote_def split: option.splits)

lemma vault_scheduleNote:
  "\<forall>t. extractTaskTextFromLine l = Some t \<longrightarrow> taskNotePath st t \<noteq> Some q \<Longrightarrow>
   vault (scheduleNote st l p d w) q = vault w q"
  by (simp add: scheduleNote_def vault_updateTaskNoteSourceFile split: option.splits)


section \<open>Patterns on strings of a given shape\<close>

declare replace_all.simps [simp del]

declare rxm.simps(9) [simp del]

lemma rxm_Seq_Nil: "rxm a s = [] \<Longrightarrow> rxm (Seq a b) s = []"
  by simp

lemma rxm_Seq_single:
  "rxm a s = [(c, s')] \<Longrightarrow> rxm (Seq a b) s = map (\<lambda>m2. (c @ fst m2, snd m2)) (rxm b s')"
  by simp


lemma rxm_Lit_app: "rxm (Lit l) (l @ s) = [([], s)]"
  by simp

lemma rxm_Lit_iff: "rxm (Lit l) s \<noteq> [] \<longleftrightarrow> (\<exists>t. s = l @ t)"
proof
  assume "rxm (Lit l) s \<noteq> []"
  then have "take (length l) s = l" by (simp split: if_splits)
  then have "s = l @ drop (length l) s" by (metis append_take_drop_id)
  then show "\<exists>t. s = l @ t" ..
next
  assume "\<exists>t. s = l @ t"
  then show "rxm (Lit l) s \<noteq> []" by auto
qed

lemma rxm_Atom_iff: "rxm (Atom C) s \<noteq> [] \<longleftrightarrow> (\<exists>x t. s = x # t \<and> cls_ok C x)"
  by (cases s) auto

text \<open>A greedy star of one class, on a run of the class that ends where the class ends.\<close>

lemma star_atom_step:
  "cls_ok C c \<Longrightarrow> rxm (Star (Atom C)) (c # s) = rxm (Star (Atom C)) s @ [([], c # s)]"
  by (subst rxm.simps(9)) simp

lemma star_atom_stop:
  "s = [] \<or> \<not> cls_ok C (hd s) \<Longrightarrow> rxm (Star (Atom C)) s = [([], s)]"
  by (subst rxm.simps(9)) (cases s, auto)


lemma star_skip:
  assumes v: "\<forall>c \<in> set v. cls_ok C c"
    and R: "\<And>x t. cls_ok C x \<Longrightarrow> rxm R (x # t) = []"
  shows "rxm (Seq (Star (Atom C)) R) (v @ s) = rxm (Seq (Star (Atom C)) R) s"
  using v
proof (induction v)
  case Nil
  show ?case by simp
next
  case (Cons c v)
  then have c: "cls_ok C c" and IH: "rxm (Seq (Star (Atom C)) R) (v @ s) = rxm (Seq (Star (Atom C)) R) s"
    by auto
  have "rxm (Seq (Star (Atom C)) R) ((c # v) @ s)
        = concat (map (\<lambda>m1. map (\<lambda>m2. (fst m1 @ fst m2, snd m2)) (rxm R (snd m1)))
                    (rxm (Star (Atom C)) (v @ s) @ [([], c # v @ s)]))"
    using c by (simp add: star_atom_step)
  also have "\<dots> = rxm (Seq (Star (Atom C)) R) (v @ s)"
    using R [OF c] by simp
  finally show ?case using IH by simp
qed

lemma star_skip_stop:
  assumes "s = [] \<or> \<not> cls_ok C (hd s)"
  shows "rxm (Seq (Star (Atom C)) R) s = rxm R s"
proof -
  have "rxm (Star (Atom C)) s = [([], s)]" using assms by (rule star_atom_stop)
  then show ?thesis by simp
qed

lemma star_then:
  assumes "\<forall>c \<in> set v. cls_ok C c" and "\<And>x t. cls_ok C x \<Longrightarrow> rxm R (x # t) = []"
    and "s = [] \<or> \<not> cls_ok C (hd s)"
  shows "rxm (Seq (Star (Atom C)) R) (v @ s) = rxm R s"
  using star_skip [OF assms(1,2)] star_skip_stop [OF assms(3)] by simp

text \<open>A greedy plus of one class in a group, followed by a pattern that the class cannot start.\<close>

lemma star_atom_all:
  assumes "\<forall>c \<in> set v. cls_ok C c" and "s = [] \<or> \<not> cls_ok C (hd s)"
  shows "rxm (Star (Atom C)) (v @ s) = map (\<lambda>k. ([], drop k v @ s)) (rev [0..<Suc (length v)])"
  using assms(1)
proof (induction v)
  case Nil
  with assms(2) show ?case by (simp add: star_atom_stop)
next
  case (Cons c v)
  have "[0..<Suc (Suc (length v))] = 0 # map Suc [0..<Suc (length v)]"
    by (simp add: upt_conv_Cons map_Suc_upt del: upt_Suc)
  then have b: "map (\<lambda>k. ([], drop k (c # v) @ s)) (rev [0..<Suc (length (c # v))])
        = map (\<lambda>k. ([], drop k v @ s)) (rev [0..<Suc (length v)]) @ [([], (c # v) @ s)]"
    by (simp add: rev_map comp_def del: upt_Suc)
  from Cons have c: "cls_ok C c"
    and IH: "rxm (Star (Atom C)) (v @ s) = map (\<lambda>k. ([], drop k v @ s)) (rev [0..<Suc (length v)])"
    by auto
  have "rxm (Star (Atom C)) ((c # v) @ s) = rxm (Star (Atom C)) (v @ s) @ [([], (c # v) @ s)]"
    using star_atom_step [OF c, of "v @ s"] by simp
  also have "\<dots> = map (\<lambda>k. ([], drop k (c # v) @ s)) (rev [0..<Suc (length (c # v))])"
    unfolding IH b ..
  finally show ?case .
qed

lemma concat_map_only_first:
  assumes "\<And>k. k \<in> set ks \<Longrightarrow> g k = []"
  shows "concat (map g (k0 # ks)) = g k0"
  using assms by (induction ks) auto





lemma search_skip:
  "rxm r (c # s) = [] \<Longrightarrow>
   search r (c # s) = (case search r s of None \<Rightarrow> None
                       | Some (pre, caps, rest) \<Rightarrow> Some (c # pre, caps, rest))"
  by simp

lemma search_match:
  "rxm r s = m # ms \<Longrightarrow> search r s = Some ([], fst m, snd m)"
  by (cases s) auto

section \<open>The tags of a line\<close>

lemma render_Nil [simp]: "render p [] = p"
  by (simp add: render_def)






lemma not_space_bracket [simp]: "\<not> is_space CHR ''[''" "\<not> is_space CHR '']''"
  by (simp_all add: is_space_def)








lemma trimEnd_all_space: "\<forall>c \<in> set w. is_space c \<Longrightarrow> trimEnd (u @ w) = trimEnd u"
proof -
  assume "\<forall>c \<in> set w. is_space c"
  then have "dropWhile is_space (rev w @ rev u) = dropWhile is_space (rev u)"
    by (intro dropWhile_append2) auto
  then show ?thesis unfolding trimEnd_def by simp
qed




lemma shift_Nil [simp]: "shift [] m = m"
  by (simp add: shift_def split: option.splits)






lemma flat_Nil [simp]: "flat p [] = plain p"
  by (simp add: flat_def)


lemma plain_append [simp]: "plain (a @ b) \<longleftrightarrow> plain a \<and> plain b"
  by (auto simp: plain_def)






lemma strip_none: "\<forall>c \<in> set cs. \<not> K (fst c) \<Longrightarrow> strip K p cs = (p, cs)"
  by (induction cs arbitrary: p) simp_all






lemma rxm_Seq_Atom_Cons:
  "rxm (Seq (Atom C) r) (x # s) = (if cls_ok C x then rxm r s else [])"
  by simp

lemma rxm_Seq_Atom_Nil: "rxm (Seq (Atom C) r) [] = []"
  by simp

lemma rxm_Seq_Lit1_Cons:
  "rxm (Seq (Lit [c]) r) (x # s) = (if x = c then rxm r s else [])"
  by simp

lemma rxm_Seq_Lit1_Nil: "rxm (Seq (Lit [c]) r) [] = []"
  by simp

lemma rxm_Seq_Eps: "rxm (Seq Eps r) s = rxm r s"
  by simp


lemma date_full:
  "rxm DATE (a # b # c # d # e # f # g # h # i # j # t)
   = (if is_date [a, b, c, d, e, f, g, h, i, j] then [([], t)] else [])"
  by (simp add: DATE_def eval_nat_numeral)

lemma date_first: "\<not> is_digit x \<Longrightarrow> rxm DATE (x # t) = []"
  by (simp add: DATE_def eval_nat_numeral)

lemma date_Nil: "rxm DATE [] = []"
  by (simp add: DATE_def eval_nat_numeral)





lemma date_app: "is_date d \<Longrightarrow> rxm DATE (d @ t) = [([], t)]"
  by (erule is_date.elims) (simp_all add: date_full)

lemma plus_atom_all:
  assumes c: "cls_ok C c" and v: "\<forall>c \<in> set v. cls_ok C c" and s: "s = [] \<or> \<not> cls_ok C (hd s)"
  shows "rxm (Plus (Atom C)) (c # v @ s) = map (\<lambda>k. ([], drop k v @ s)) (rev [0..<Suc (length v)])"
  using c star_atom_all [OF v s] by (simp add: Plus_def)

lemma plus_atom_fail: "s = [] \<or> \<not> cls_ok C (hd s) \<Longrightarrow> rxm (Plus (Atom C)) s = []"
  by (cases s) (auto simp: Plus_def)

lemma plus_then:
  assumes v: "\<forall>c \<in> set v. cls_ok C c" and ne: "v \<noteq> []"
    and R: "\<And>x t. cls_ok C x \<Longrightarrow> rxm R (x # t) = []"
    and s: "s = [] \<or> \<not> cls_ok C (hd s)"
  shows "rxm (Seq (Plus (Atom C)) R) (v @ s) = rxm R s"
proof -
  from ne obtain c v' where cv: "v = c # v'" by (cases v) auto
  with v have c: "cls_ok C c" and v': "\<forall>c \<in> set v'. cls_ok C c" by auto
  let ?n = "length v'"
  let ?g = "\<lambda>k. map (\<lambda>m2. ([] @ fst m2, snd m2)) (rxm R (drop k v' @ s))"
  have "rxm (Seq (Plus (Atom C)) R) (v @ s) = concat (map ?g (rev [0..<Suc ?n]))"
    unfolding rxm.simps(6) cv append_Cons plus_atom_all [OF c v' s]
    by (simp add: comp_def del: upt_Suc)
  also have "rev [0..<Suc ?n] = ?n # rev [0..<?n]" by simp
  also have "concat (map ?g (?n # rev [0..<?n])) = ?g ?n"
  proof (rule concat_map_only_first)
    fix k assume "k \<in> set (rev [0..<?n])"
    then have "k < ?n" by simp
    then obtain x t where "drop k v' = x # t" and "x \<in> set v'"
      by (metis Cons_nth_drop_Suc nth_mem)
    with v' R [of x "t @ s"] show "?g k = []" by simp
  qed
  finally show ?thesis by simp
qed

lemma lit_close: "rxm (Lit '']'') (CHR '']'' # rest) = [([], rest)]"
  by simp

lemma lit_close_fail: "x \<noteq> CHR '']'' \<Longrightarrow> rxm (Lit '']'') (x # t) = []"
  by simp

lemma take_body:
  assumes "CHR '']'' \<notin> set opn"
  shows "take (length opn) (b @ CHR '']'' # rest) = opn
         \<longleftrightarrow> take (length opn) b = opn \<and> length opn \<le> length b"
proof (cases "length opn \<le> length b")
  case True
  then show ?thesis by simp
next
  case False
  then have "CHR '']'' \<in> set (take (length opn) (b @ CHR '']'' # rest))"
    by (cases "length opn - length b") auto
  with assms have "take (length opn) (b @ CHR '']'' # rest) \<noteq> opn" by metis
  with False show ?thesis by simp
qed

lemma opener_cases [consumes 1, case_names hit bare miss]:
  assumes "CHR '']'' \<notin> set opn"
  obtains (hit) v where "b = opn @ v" "v \<noteq> []" "hasOpener opn b"
  | (bare) "b = opn" "\<not> hasOpener opn b"
  | (miss) "\<And>rest. rxm (Lit (CHR ''['' # opn)) (CHR ''['' # b @ CHR '']'' # rest) = []"
           "\<not> hasOpener opn b"
proof (cases "take (length opn) b = opn \<and> length opn \<le> length b")
  case True
  then have b: "b = opn @ drop (length opn) b" by (metis append_take_drop_id)
  show ?thesis
  proof (cases "drop (length opn) b = []")
    case True
    with b have "b = opn" by simp
    then show ?thesis by (intro bare) (simp_all add: hasOpener_def)
  next
    case False
    with True have "hasOpener opn b" by (auto simp: hasOpener_def)
    with b False show ?thesis by (intro hit [of "drop (length opn) b"])
  qed
next
  case False
  then have "rxm (Lit (CHR ''['' # opn)) (CHR ''['' # b @ CHR '']'' # rest) = []" for rest
    using take_body [OF assms, of b rest] by simp
  moreover have "\<not> hasOpener opn b" using False by (auto simp: hasOpener_def)
  ultimately show ?thesis by (intro miss)
qed

lemma lit_opener: "rxm (Lit (CHR ''['' # opn)) (CHR ''['' # opn @ t) = [([], t)]"
  using rxm_Lit_app [of "CHR ''['' # opn" t] by simp

lemma seq_lit_start:
  "rxm (Seq (Lit (CHR ''['' # l)) r) s \<noteq> [] \<Longrightarrow> \<exists>q. s = CHR ''['' # q"
proof -
  assume "rxm (Seq (Lit (CHR ''['' # l)) r) s \<noteq> []"
  then have "rxm (Lit (CHR ''['' # l)) s \<noteq> []" by (rule rxm_Seq_first)
  then obtain t where "s = (CHR ''['' # l) @ t" unfolding rxm_Lit_iff by blast
  then show ?thesis by simp
qed

lemma none_of_close: "cls_ok (NoneOf '']'') x \<longleftrightarrow> x \<noteq> CHR '']''"
  by simp



lemma star_self: "([], s) \<in> set (rxm (Star a) s)"
  by (subst rxm.simps(9)) simp

lemma star_atom_mem:
  "m \<in> set (rxm (Star (Atom C)) s) \<Longrightarrow>
   fst m = [] \<and> (\<exists>k \<le> length s. snd m = drop k s \<and> (\<forall>c \<in> set (take k s). cls_ok C c))"
proof (induction s)
  case Nil
  then show ?case by (simp add: star_atom_stop)
next
  case (Cons c s)
  show ?case
  proof (cases "cls_ok C c")
    case True
    from Cons.prems consider "m \<in> set (rxm (Star (Atom C)) s)" | "m = ([], c # s)"
      unfolding star_atom_step [OF True] by auto
    then show ?thesis
    proof cases
      case 1
      from Cons.IH [OF this] obtain k where "fst m = []" "k \<le> length s" "snd m = drop k s"
        "\<forall>c \<in> set (take k s). cls_ok C c" by blast
      with True show ?thesis by (intro conjI exI [of _ "Suc k"]) auto
    next
      case 2
      then show ?thesis by (intro conjI exI [of _ 0]) auto
    qed
  next
    case False
    with Cons.prems have "m = ([], c # s)" by (simp add: star_atom_stop)
    then show ?thesis by (intro conjI exI [of _ 0]) auto
  qed
qed

lemma rxm_Seq_mem:
  "m \<in> set (rxm (Seq a b) s) \<longleftrightarrow>
   (\<exists>m1 \<in> set (rxm a s). \<exists>m2 \<in> set (rxm b (snd m1)). m = (fst m1 @ fst m2, snd m2))"
  by auto

lemma all_same_hd: "xs \<noteq> [] \<Longrightarrow> set xs \<subseteq> {a} \<Longrightarrow> \<exists>ms. xs = a # ms"
  by (cases xs) auto



text \<open>The field with white space after the opener.\<close>

lemma tag_rx_field_sp:
  assumes o: "CHR '']'' \<notin> set opn"
  shows "tag_rx (Seqs [Lit (CHR ''['' # opn), Star (Atom Space), Plus (Atom (NoneOf '']'')),
                       Lit '']''])
           (hasOpener opn) (\<lambda>b. [])"
  unfolding tag_rx_def Seqs.simps
proof (intro conjI allI impI)
  fix s
  assume "rxm (Seq (Lit (CHR ''['' # opn))
            (Seq (Star (Atom Space)) (Seq (Plus (Atom (NoneOf '']''))) (Lit '']'')))) s \<noteq> []"
  then show "\<exists>q. s = CHR ''['' # q" by (rule seq_lit_start)
next
  fix b rest
  let ?X = "Seq (Plus (Atom (NoneOf '']''))) (Lit '']'')"
  let ?Y = "Seq (Star (Atom Space)) ?X"
  assume b: "CHR ''['' \<notin> set b \<and> CHR '']'' \<notin> set b"
  have X: "rxm ?X (v @ CHR '']'' # rest) = (if v = [] then [] else [([], rest)])"
    if "CHR '']'' \<notin> set v" for v
  proof (cases "v = []")
    case True
    have "rxm (Plus (Atom (NoneOf '']''))) (CHR '']'' # rest) = []" by (simp add: Plus_def)
    then have "rxm ?X (CHR '']'' # rest) = []" by (rule rxm_Seq_Nil)
    then show ?thesis unfolding True append_Nil by (simp only: refl if_True)
  next
    case False
    have "rxm ?X (v @ CHR '']'' # rest) = rxm (Lit '']'') (CHR '']'' # rest)"
      by (rule plus_then [OF _ False]) (use that in auto)
    also have "\<dots> = [([], rest)]" by (rule lit_close)
    finally show ?thesis using False by (simp only: if_False)
  qed
  have Y: "rxm ?Y (v @ CHR '']'' # rest) = [] \<or> (\<exists>ms. rxm ?Y (v @ CHR '']'' # rest) = ([], rest) # ms)"
    if v: "CHR '']'' \<notin> set v" for v
  proof (cases "rxm ?Y (v @ CHR '']'' # rest) = []")
    case True
    then show ?thesis by simp
  next
    case False
    have "set (rxm ?Y (v @ CHR '']'' # rest)) \<subseteq> {([], rest)}"
    proof
      fix m assume "m \<in> set (rxm ?Y (v @ CHR '']'' # rest))"
      then have "\<exists>m1 \<in> set (rxm (Star (Atom Space)) (v @ CHR '']'' # rest)).
                 \<exists>m2 \<in> set (rxm ?X (snd m1)). m = (fst m1 @ fst m2, snd m2)"
        by (rule iffD1 [OF rxm_Seq_mem])
      then obtain m1 m2 where m1: "m1 \<in> set (rxm (Star (Atom Space)) (v @ CHR '']'' # rest))"
        and m2: "m2 \<in> set (rxm ?X (snd m1))" and m: "m = (fst m1 @ fst m2, snd m2)"
        by blast
      from star_atom_mem [OF m1] obtain k where k: "fst m1 = []"
        "snd m1 = drop k (v @ CHR '']'' # rest)"
        "\<forall>c \<in> set (take k (v @ CHR '']'' # rest)). cls_ok Space c" by blast
      have "k \<le> length v"
      proof (rule ccontr)
        assume "\<not> k \<le> length v"
        then have "CHR '']'' \<in> set (take k (v @ CHR '']'' # rest))"
          by (cases "k - length v") auto
        with k(3) have "cls_ok Space CHR '']''" by blast
        then show False by simp
      qed
      then have s1: "snd m1 = drop k v @ CHR '']'' # rest" using k(2) by simp
      have "CHR '']'' \<notin> set (drop k v)" using v by (auto dest: in_set_dropD)
      from X [OF this] have "rxm ?X (snd m1) = (if drop k v = [] then [] else [([], rest)])"
        unfolding s1 .
      with m2 have "m2 \<in> set (if drop k v = [] then [] else [([], rest)])" by (simp only:)
      then have "m2 = ([], rest)" by (cases "drop k v = []") simp_all
      with m k(1) show "m \<in> {([], rest)}" by simp
    qed
    from all_same_hd [OF False this] show ?thesis by (rule disjI2)
  qed
  have Y0: "rxm ?Y (v @ CHR '']'' # rest) \<noteq> []" if "CHR '']'' \<notin> set v" "v \<noteq> []" for v
  proof -
    have "rxm ?X (v @ CHR '']'' # rest) = [([], rest)]"
      using X [OF that(1)] that(2) by (simp only: if_False)
    then have "rxm ?X (snd ([], v @ CHR '']'' # rest)) \<noteq> []" by (simp only: snd_conv) simp
    then have "\<exists>m \<in> set (rxm (Star (Atom Space)) (v @ CHR '']'' # rest)). rxm ?X (snd m) \<noteq> []"
      using star_self by (rule rev_bexI [rotated])
    then show ?thesis by (rule iffD2 [OF rxm_Seq_nonempty])
  qed
  show "if hasOpener opn b
        then \<exists>ms. rxm (Seq (Lit (CHR ''['' # opn)) ?Y) (CHR ''['' # b @ CHR '']'' # rest)
                   = ([], rest) # ms
        else rxm (Seq (Lit (CHR ''['' # opn)) ?Y) (CHR ''['' # b @ CHR '']'' # rest) = []"
    using o
  proof (cases rule: opener_cases [of opn b])
    case (hit v)
    have v: "CHR '']'' \<notin> set v" using b hit(1) by auto
    from Y [OF v] have "\<exists>ms. rxm ?Y (v @ CHR '']'' # rest) = ([], rest) # ms"
    proof
      assume "rxm ?Y (v @ CHR '']'' # rest) = []"
      with Y0 [OF v hit(2)] show ?thesis by (rule notE)
    next
      assume "\<exists>ms. rxm ?Y (v @ CHR '']'' # rest) = ([], rest) # ms"
      then show ?thesis .
    qed
    then obtain ms where ms: "rxm ?Y (v @ CHR '']'' # rest) = ([], rest) # ms" ..
    have "rxm (Seq (Lit (CHR ''['' # opn)) ?Y) (CHR ''['' # opn @ v @ CHR '']'' # rest)
          = map (\<lambda>m2. ([] @ fst m2, snd m2)) (rxm ?Y (v @ CHR '']'' # rest))"
      by (rule rxm_Seq_single [OF lit_opener])
    also have "\<dots> = ([], rest) # map (\<lambda>m2. ([] @ fst m2, snd m2)) ms"
      unfolding ms by simp
    finally have "\<exists>ms. rxm (Seq (Lit (CHR ''['' # opn)) ?Y) (CHR ''['' # b @ CHR '']'' # rest)
          = ([], rest) # ms"
      unfolding hit(1) append_assoc by (rule exI)
    with hit(3) show ?thesis by (simp only: if_True)
  next
    case bare
    have "rxm ?Y (CHR '']'' # rest) = rxm ?X (CHR '']'' # rest)"
      by (rule star_skip_stop) simp
    also have "\<dots> = []" using X [of "[]"] by (simp only: append_Nil if_True) simp
    finally have y: "rxm ?Y (CHR '']'' # rest) = []" .
    have "rxm (Seq (Lit (CHR ''['' # opn)) ?Y) (CHR ''['' # opn @ CHR '']'' # rest)
          = map (\<lambda>m2. ([] @ fst m2, snd m2)) (rxm ?Y (CHR '']'' # rest))"
      by (rule rxm_Seq_single [OF lit_opener])
    then have "rxm (Seq (Lit (CHR ''['' # opn)) ?Y) (CHR ''['' # b @ CHR '']'' # rest) = []"
      unfolding y bare(1) by simp
    with bare(2) show ?thesis by (simp only: if_False)
  next
    case miss
    have "rxm (Seq (Lit (CHR ''['' # opn)) ?Y) (CHR ''['' # b @ CHR '']'' # rest) = []"
      by (rule rxm_Seq_Nil [OF miss(1)])
    with miss(2) show ?thesis by (simp only: if_False)
  qed
qed















section \<open>The groups of the archiver\<close>

lemma tabs_rx:
  assumes "\<And>t. rxm R (TAB # t) = []"
  shows "rxm (Seq (Star (Atom (Chr TAB))) R) l = rxm R (untab l)"
proof -
  have "rxm (Seq (Star (Atom (Chr TAB))) R) (takeWhile (\<lambda>c. c = TAB) l @ untab l) = rxm R (untab l)"
  proof (rule star_then)
    show "\<forall>c \<in> set (takeWhile (\<lambda>c. c = TAB) l). cls_ok (Chr TAB) c"
      by (auto dest: set_takeWhileD)
    show "rxm R (x # t) = []" if "cls_ok (Chr TAB) x" for x t using that assms by simp
    show "untab l = [] \<or> \<not> cls_ok (Chr TAB) (hd (untab l))"
      unfolding untab_def using hd_dropWhile [of "\<lambda>c. c = TAB" l] by auto
  qed
  then show ?thesis by (simp add: untab_def)
qed

lemma untab_idem: "untab (untab l) = untab l"
  unfolding untab_def by (metis dropWhile_idem)

lemma task_untab: "isTask l \<longleftrightarrow> isParentTask (untab l)"
  unfolding isTask_def isParentTask_def test_start_def TASK_PATTERN_def PARENT_TASK_PATTERN_def
    Seqs.simps
  by (subst tabs_rx) (simp_all add: rxm_step del: rxm.simps(1,2))



lemma calendar_untab:
  "test_start CALENDAR_EVENT_PATTERN l \<longleftrightarrow> test_start CALENDAR_EVENT_PATTERN (untab l)"
  unfolding test_start_def CALENDAR_EVENT_PATTERN_def Seqs.simps
  by (subst (1 2) tabs_rx) (simp_all add: rxm_step untab_idem del: rxm.simps(1,2))









lemma task_first: "isTask l \<Longrightarrow> \<exists>t. l = TAB # t \<or> l = CHR ''-'' # t"
proof -
  assume "isTask l"
  then obtain m r where u: "untab l = CHR ''-'' # CHR '' '' # CHR ''['' # m # CHR '']'' # r"
    unfolding task_untab parent_shape by blast
  show ?thesis
  proof (cases l)
    case Nil
    with u show ?thesis by (simp add: untab_def)
  next
    case (Cons x t)
    with u show ?thesis by (cases "x = TAB") (simp_all add: untab_def)
  qed
qed

lemma task_not_callout:
  assumes "isTask l"
  shows "\<not> test_start ARCHIVE_CALLOUT_START l" "\<not> test_start ARCHIVE_LINE l" "trim l \<noteq> []"
    "l \<noteq> []"
proof -
  from task_first [OF assms] obtain t where l: "l = TAB # t \<or> l = CHR ''-'' # t" by blast
  then have "rxm (Lit ''> [!archived]'') l = []" by auto
  then have "rxm ARCHIVE_CALLOUT_START l = []"
    unfolding ARCHIVE_CALLOUT_START_def Seqs.simps by (rule rxm_Seq_Nil)
  then show "\<not> test_start ARCHIVE_CALLOUT_START l" by (simp add: test_start_def)
  from l show "\<not> test_start ARCHIVE_LINE l" by (auto simp: test_start_def ARCHIVE_LINE_def)
  from l show "l \<noteq> []" by auto
  have "CHR ''-'' \<in> set l"
  proof -
    from assms obtain r where "untab l = CHR ''-'' # r"
      unfolding task_untab parent_shape by blast
    then have "CHR ''-'' \<in> set (untab l)" by simp
    then show ?thesis unfolding untab_def by (rule set_dropWhileD)
  qed
  then obtain a b where ab: "l = a @ CHR ''-'' # b" by (meson split_list)
  have ns: "\<not> is_space CHR ''-''" by (simp add: is_space_def)
  have "CHR ''-'' \<in> set (trimStart l)"
    unfolding trimStart_def ab using ns
    by (metis (no_types, lifting) dropWhile_append dropWhile.simps(2) in_set_conv_decomp
        list.set_intros(1) set_dropWhileD Un_iff set_append)
  then obtain c d where cd: "trimStart l = c @ CHR ''-'' # d" by (meson split_list)
  have "dropWhile is_space (rev d @ CHR ''-'' # rev c) \<noteq> []"
    using ns by (simp add: dropWhile_append)
  then show "trim l \<noteq> []" by (simp add: trim_def trimEnd_def cd)
qed






lemma turn_task:
  assumes "isTask l"
  shows "turn_of ps l \<in> {Calendar, Archive, Active, Other}"
  using task_not_callout [OF assms] by (auto simp: turn_of_def)

























section \<open>The reset of a scheduled line\<close>















section \<open>The claims\<close>

text \<open>
  C9, as stated, fails: a task line can carry an id tag and still get a second one. On the
  line \<open>- [ ] x [id:: ] [id::abc]\<close> the first tag that \<open>ID_PATTERN\<close> finds is \<open>[id:: ]\<close>,
  whose value is blank; \<open>extractId\<close> returns the empty string, \<open>addId\<close> takes the line for
  one without id, and \<open>processContent\<close> appends a new tag behind \<open>[id::abc]\<close>.
\<close>

theorem processContent_adds_id_behind_blank_tag:
  "isTask ''- [ ] x [id:: ] [id::abc]''
   \<and> includes_str ''- [ ] x [id:: ] [id::abc]'' ''[id::abc]''
   \<and> extractId ''- [ ] x [id:: ] [id::abc]'' = Some []
   \<and> processContent DEFAULT_SETTINGS (\<lambda>k. k) ''- [ ] x [id:: ] [id::abc]''
       = ''- [ ] x [id:: ] [id::abc] [id::t-abcdefgh]''"
  by code_simp

text \<open>
  C9, amended. For every input document, \<open>TaskIdManager.processContent\<close> keeps the number
  of lines. A calendar-event line, a line that is no task, and a task line whose first tag
  \<open>[id::v]\<close> (the leftmost one, \<open>v\<close> one or more characters other than \<open>]\<close>) has a value
  that is not blank come out unchanged: these are the task lines on which \<open>extractId\<close>
  returns an id that is not empty. Every other task line, one without such a tag or one
  whose first tag has a blank value, comes out as the line with its trailing white space
  trimmed, followed by one tag \<open> [id::<prefix><N chars>]\<close>, the \<open>N = idLength\<close> characters
  drawn from \<open>chars\<close>. The lines of the output document are the processed lines when the
  prefix holds no line break.
\<close>

theorem processContent_frame:
  "length (processLines st rnd 0 (split_nl content)) = length (split_nl content) \<and>
   (\<forall>i < length (split_nl content).
      if isCalendarEvent (split_nl content ! i) \<or> \<not> isTask (split_nl content ! i)
         \<or> truthy (extractId (split_nl content ! i))
      then processLines st rnd 0 (split_nl content) ! i = split_nl content ! i
      else \<exists>cs. length cs = idLength st \<and> set cs \<subseteq> set chars \<and>
             processLines st rnd 0 (split_nl content) ! i =
               trimEnd (split_nl content ! i) @ '' [id::'' @ idPrefix st @ cs @ '']'') \<and>
   (NL \<notin> set (idPrefix st) \<longrightarrow>
      split_nl (processContent st rnd content) = processLines st rnd 0 (split_nl content))"
proof (intro conjI allI impI)
  show "length (processLines st rnd 0 (split_nl content)) = length (split_nl content)"
    by (rule length_processLines)
next
  fix i assume "i < length (split_nl content)"
  then show "if isCalendarEvent (split_nl content ! i) \<or> \<not> isTask (split_nl content ! i)
         \<or> truthy (extractId (split_nl content ! i))
      then processLines st rnd 0 (split_nl content) ! i = split_nl content ! i
      else \<exists>cs. length cs = idLength st \<and> set cs \<subseteq> set chars \<and>
             processLines st rnd 0 (split_nl content) ! i =
               trimEnd (split_nl content ! i) @ '' [id::'' @ idPrefix st @ cs @ '']''"
    by (rule processLines_nth)
next
  assume p: "NL \<notin> set (idPrefix st)"
  have "\<forall>l\<in>set (split_nl content). NL \<notin> set l"
    using split_nl_no_nl by blast
  with p have "\<forall>l\<in>set (processLines st rnd 0 (split_nl content)). NL \<notin> set l"
    by (rule processLines_no_nl)
  moreover have "processLines st rnd 0 (split_nl content) \<noteq> []"
    using length_processLines [of st rnd 0 "split_nl content"] split_nl_nonempty [of content]
    by (metis length_0_conv)
  ultimately show "split_nl (processContent st rnd content) = processLines st rnd 0 (split_nl content)"
    unfolding processContent_def by (simp add: split_join_nl)
qed


theorem processContent_frame_witness:
 "NL \<notin> set (idPrefix DEFAULT_SETTINGS) \<and>
  (1::nat) < length (split_nl example_note) \<and>
  \<not> (isCalendarEvent (split_nl example_note ! 1) \<or> \<not> isTask (split_nl example_note ! 1)
      \<or> truthy (extractId (split_nl example_note ! 1))) \<and>
  split_nl (processContent DEFAULT_SETTINGS (\<lambda>k. k) example_note) =
    [''# Today'', ''- [ ] Buy milk [id::t-abcdefgh]'', TAB # ''- [x] sub [id::t-1]'',
     ''- [c] 09:00 - 10:00 Standup'']"
proof -
  have e: "split_nl example_note = [''# Today'', ''- [ ] Buy milk  '', TAB # ''- [x] sub [id::t-1]'',
     ''- [c] 09:00 - 10:00 Standup'']" by code_simp
  have p: "NL \<notin> set (idPrefix DEFAULT_SETTINGS)" by code_simp
  have c: "\<not> (isCalendarEvent ''- [ ] Buy milk  '' \<or> \<not> isTask ''- [ ] Buy milk  ''
      \<or> truthy (extractId ''- [ ] Buy milk  ''))" by code_simp
  have r: "processLines DEFAULT_SETTINGS (\<lambda>k. k) 0 [''# Today'', ''- [ ] Buy milk  '', TAB # ''- [x] sub [id::t-1]'',
     ''- [c] 09:00 - 10:00 Standup''] = [''# Today'', ''- [ ] Buy milk [id::t-abcdefgh]'', TAB # ''- [x] sub [id::t-1]'',
     ''- [c] 09:00 - 10:00 Standup'']" by code_simp
  show ?thesis
    using processContent_frame [of DEFAULT_SETTINGS "\<lambda>k. k" example_note] p c
    unfolding e r by simp
qed


text \<open>
  C5. Scheduling the source line \<open>- [ ] Call dentist [id::t-xy] \<close> (with its trailing
  space) from the document dated 2025-01-10 to the target date 2025-01-12 succeeds,
  rewrites the source line to exactly \<open>- [>] Call dentist [id::t-xy] [> 2025-01-12]\<close> and
  appends to the document of 2025-01-12 exactly the new line
  \<open>- [ ] Call dentist [id::t-xy] [< 2025-01-10]\<close>: the new content is the old one with its
  end trimmed, a line break and the new line. The target document is there and does not
  hold the id yet, or it is not there and is created empty.
\<close>

theorem schedule_dentist_example:
  assumes n: "lineNum < length (editor w)"
    and l: "editor w ! lineNum = ''- [ ] Call dentist [id::t-xy] ''"
    and a: "activeFile w = Some f" "basename f = ''2025-01-10''"
    and v: "vault w (getDailyNotePath ''2025-01-12'' st) = Some (TFile content)
            \<or> vault w (getDailyNotePath ''2025-01-12'' st) = None \<and> content = []"
    and t: "\<not> test (idPattern ''t-xy'') content"
  shows "\<exists>w'. scheduleTask st lineNum ''2025-01-12'' w = Inr (True, w')
     \<and> editor w' ! lineNum = ''- [>] Call dentist [id::t-xy] [> 2025-01-12]''
     \<and> vault w' (getDailyNotePath ''2025-01-12'' st) =
         Some (TFile (trimEnd content @ [NL] @ ''- [ ] Call dentist [id::t-xy] [< 2025-01-10]''))"
proof -
  let ?L = "''- [ ] Call dentist [id::t-xy] ''"
  let ?tp = "getDailyNotePath ''2025-01-12'' st"
  have f1: "isTask ?L" by code_simp
  have f2: "\<not> includes_str ?L (''[> '' @ ''2025-01-12'' @ '']'')" by code_simp
  have f3: "extractId ?L = Some ''t-xy''" by code_simp
  have f4: "plainId ''t-xy''" by code_simp
  have f5: "markTaskAsScheduled ?L ''2025-01-12'' = ''- [>] Call dentist [id::t-xy] [> 2025-01-12]''"
    by code_simp
  have f6: "createScheduledTaskCopy ?L ''2025-01-10'' = ''- [ ] Call dentist [id::t-xy] [< 2025-01-10]''"
    by code_simp
  have f7: "extractTaskTextFromLine ?L = Some ''Call dentist''" by code_simp
  have f8: "sanitizeFilename ''Call dentist'' = ''Call dentist''" by code_simp
  obtain folder where tp: "?tp = folder @ ''/'' @ ''2025-01-12'' @ ''.md''"
    using getDailyNotePath_folder by blast
  have f9: "taskNotePath st ''Call dentist'' \<noteq> Some ?tp"
  proof
    assume "taskNotePath st ''Call dentist'' = Some ?tp"
    then have "taskNotesFolder st @ ''/Call dentist.md'' = folder @ ''/2025-01-12.md''"
      by (simp add: taskNotePath_def f8 tp)
    then have "take 4 (rev (taskNotesFolder st @ ''/Call dentist.md''))
               = take 4 (rev (folder @ ''/2025-01-12.md''))"
      by simp
    then show False by simp
  qed
  have pf: "parentFolder ?tp \<noteq> ?tp"
    unfolding tp by (rule parentFolder_neq)
  have im: "idMatches (Some ''t-xy'') content = False"
    using t by (simp add: idMatches_def)
  from v show ?thesis
  proof
    assume "vault w ?tp = Some (TFile content)"
    then show ?thesis
      using n l a f1 f2 f4 f9 im
      by (simp add: scheduleTask_def ensureTarget_def newTargetContent_def scheduleNote_def
          Let_def f3 f5 f6 f7 plainOrNone_def
          vault_updateTaskNoteSourceFile mapSubtasks_nth_before)
  next
    assume "vault w ?tp = None \<and> content = []"
    then show ?thesis
      using n l a f1 f2 f4 f9 im pf
      by (simp add: scheduleTask_def ensureTarget_def newTargetContent_def scheduleNote_def
          Let_def f3 f5 f6 f7 plainOrNone_def create_def createFolder_def
          vault_updateTaskNoteSourceFile mapSubtasks_nth_before split: option.splits)
  qed
qed


theorem schedule_dentist_example_witness:
  "(1::nat) < length (editor friday_world)
   \<and> editor friday_world ! 1 = ''- [ ] Call dentist [id::t-xy] ''
   \<and> activeFile friday_world = Some friday \<and> basename friday = ''2025-01-10''
   \<and> vault friday_world (getDailyNotePath ''2025-01-12'' DEFAULT_SETTINGS) = None
   \<and> \<not> test (idPattern ''t-xy'') []
   \<and> (\<exists>w'. scheduleTask DEFAULT_SETTINGS 1 ''2025-01-12'' friday_world = Inr (True, w')
         \<and> editor w' ! 1 = ''- [>] Call dentist [id::t-xy] [> 2025-01-12]''
         \<and> vault w' ''00 - Daily/2025-01-12.md'' =
             Some (TFile (NL # ''- [ ] Call dentist [id::t-xy] [< 2025-01-10]'')))"
proof -
  have p: "getDailyNotePath ''2025-01-12'' DEFAULT_SETTINGS = ''00 - Daily/2025-01-12.md''"
    by code_simp
  have h1: "(1::nat) < length (editor friday_world)"
    and h2: "editor friday_world ! 1 = ''- [ ] Call dentist [id::t-xy] ''"
    and h3: "activeFile friday_world = Some friday"
    and h4: "basename friday = ''2025-01-10''"
    and h5: "vault friday_world (getDailyNotePath ''2025-01-12'' DEFAULT_SETTINGS) = None"
    by (simp_all add: friday_world_def friday_def p)
  have h6: "\<not> test (idPattern ''t-xy'') []" by code_simp
  have t: "trimEnd [] = []" by (simp add: trimEnd_def)
  from h5 have h5': "vault friday_world (getDailyNotePath ''2025-01-12'' DEFAULT_SETTINGS)
                       = Some (TFile [])
                     \<or> vault friday_world (getDailyNotePath ''2025-01-12'' DEFAULT_SETTINGS) = None
                       \<and> ([]::string) = []"
    by simp
  show ?thesis
    using schedule_dentist_example [OF h1 h2 h3 h4 h5' h6] h1 h2 h3 h4 h5 h6
    by (simp add: p t)
qed

text \<open>
  C8. For every source line that already carries the tag \<open>[> D]\<close> of the requested target
  date \<open>D\<close>, \<open>scheduleTask\<close> rejects the request: it returns \<open>false\<close>, and the document
  of the editor and the whole vault (the target document and the task note with it) are
  as before; a notice is all it adds.
\<close>

theorem scheduleTask_rejects_duplicate:
  assumes "lineNum < length (editor w)"
    and "includes_str (editor w ! lineNum) (''[> '' @ targetDate @ '']'')"
  shows "\<exists>w'. scheduleTask st lineNum targetDate w = Inr (False, w')
           \<and> editor w' = editor w \<and> vault w' = vault w \<and> activeFile w' = activeFile w"
  using assms by (auto simp: scheduleTask_def Let_def)


theorem scheduleTask_rejects_duplicate_witness:
  "(1::nat) < length (editor scheduled_world)
   \<and> includes_str (editor scheduled_world ! 1) (''[> '' @ ''2025-01-12'' @ '']'')
   \<and> (\<exists>w'. scheduleTask DEFAULT_SETTINGS 1 ''2025-01-12'' scheduled_world = Inr (False, w')
         \<and> editor w' = editor scheduled_world \<and> vault w' = vault scheduled_world
         \<and> activeFile w' = activeFile scheduled_world)"
proof -
  have h1: "(1::nat) < length (editor scheduled_world)"
    by (simp add: scheduled_world_def)
  have e: "editor scheduled_world ! 1 = ''- [>] Call dentist [id::t-xy] [> 2025-01-12]''"
    by (simp add: scheduled_world_def)
  have "includes_str ''- [>] Call dentist [id::t-xy] [> 2025-01-12]'' (''[> '' @ ''2025-01-12'' @ '']'')"
    by code_simp
  with e have h2: "includes_str (editor scheduled_world ! 1) (''[> '' @ ''2025-01-12'' @ '']'')"
    by simp
  show ?thesis
    using scheduleTask_rejects_duplicate [OF h1 h2] h1 h2 by simp
qed

text \<open>
  C3, at the input \<open>- [ ] a\<close>, \<open>note\<close>, \<open>- [ ] b\<close>: the line \<open>note\<close> stands between two
  task lines, and \<open>sortContent\<close> returns the two task lines only. The line is filed in
  \<open>otherLines\<close> with its index, and the output takes from \<open>otherLines\<close> the indices below
  the first task and above the last one.
\<close>

theorem sortContent_drops_line_between_tasks:
  "sortContent (''- [ ] a'' @ [NL] @ ''note'' @ [NL] @ ''- [ ] b'') = ''- [ ] a'' @ [NL] @ ''- [ ] b''"
  by code_simp


text \<open>
  C7, as stated, fails: a completed group with a time block is written under the heading
  \<open>## Completed\<close>, below an incomplete group without one.
\<close>

theorem sortContent_not_chronological:
  "\<not> chronological (split_nl (sortContent (''- [ ] b'' @ [NL] @ ''- [x] 09:00 - 10:00 a'')))"
  by code_simp

text \<open>
  C7, amended. In the output of \<open>sortContent\<close>, the groups above the heading
  \<open>## Completed\<close> are in chronological order among themselves, and so are the groups from
  the heading on: in each of the two parts, of two groups with a time block the earlier one
  in the output has the smaller or equal pair of start and end, and every group without a
  time block comes after every group with one.
\<close>

theorem sortContent_chronological_sections:
  "chronological (aboveCompleted (split_nl (sortContent content)))
   \<and> chronological (fromCompleted (split_nl (sortContent content)))"
proof (cases "sortLines (split_nl content) = []")
  case True
  have "chronological (aboveCompleted [[]])" "chronological (fromCompleted [[]])"
    by code_simp+
  with True show ?thesis by (simp add: split_sortContent)
next
  case False
  then show ?thesis by (simp add: split_sortContent sorted_above sorted_from)
qed

theorem sortContent_chronological_sections_witness:
  "map getTaskSortKey (filter isParentTask (aboveCompleted (split_nl (sortContent sort_example))))
     = [\<lparr>hasTime = True, key_start = Num 540, key_end = Num 600\<rparr>,
        \<lparr>hasTime = True, key_start = Num 600, key_end = Num 660\<rparr>,
        \<lparr>hasTime = False, key_start = Infinity, key_end = Infinity\<rparr>]
   \<and> map getTaskSortKey (filter isParentTask (fromCompleted (split_nl (sortContent sort_example))))
     = [\<lparr>hasTime = True, key_start = Num 480, key_end = Num 510\<rparr>,
        \<lparr>hasTime = True, key_start = Num 570, key_end = Num 585\<rparr>]
   \<and> chronological (aboveCompleted (split_nl (sortContent sort_example)))
   \<and> chronological (fromCompleted (split_nl (sortContent sort_example)))"
proof -
  have a: "map getTaskSortKey (filter isParentTask (aboveCompleted (split_nl (sortContent sort_example))))
     = [\<lparr>hasTime = True, key_start = Num 540, key_end = Num 600\<rparr>,
        \<lparr>hasTime = True, key_start = Num 600, key_end = Num 660\<rparr>,
        \<lparr>hasTime = False, key_start = Infinity, key_end = Infinity\<rparr>]"
    by code_simp
  have b: "map getTaskSortKey (filter isParentTask (fromCompleted (split_nl (sortContent sort_example))))
     = [\<lparr>hasTime = True, key_start = Num 480, key_end = Num 510\<rparr>,
        \<lparr>hasTime = True, key_start = Num 570, key_end = Num 585\<rparr>]"
    by code_simp
  show ?thesis
    using sortContent_chronological_sections [of sort_example] a b by simp
qed





text \<open>
  C2, at a task whose id tag is written \<open>[id::t1 ]\<close>: the id is \<open>t1\<close>, and after the
  cycle 2025-01-10, 2025-01-11, 2025-01-12, 2025-01-10 the note of 2025-01-10 holds two
  lines with the id. The last \<open>scheduleTask\<close> did not find the line that was there and
  appended a second one.
\<close>

theorem scheduleTask_cycle_appends_second_line:
  "extractId ''- [ ] Pay rent [id::t1 ]'' = Some ''t1''
   \<and> map_option (\<lambda>w. vault w ''00 - Daily/2025-01-10.md'') rent_cycle =
       Some (Some (TFile (''- [>] Pay rent [id::t1 ] [> 2025-01-11]'' @ [NL]
                          @ ''- [ ] Pay rent [id::t1 ] [< 2025-01-12]'')))"
  by code_simp








end
